theory Spec2Isabelle
  imports Complex_Main
begin

section \<open>Values of the Python run time\<close>

text \<open>
  A float64 as numpy and pandas hold it: a finite number, one of the two infinities, or
  not-a-number. The finite values that occur are the binary64 numbers; every arithmetic
  operation returns the exact result rounded to the nearest binary64 number, ties to the even
  significand, with gradual underflow and overflow to infinity (IEEE 754, the default
  rounding). The sign of zero is not kept: it decides no comparison in the source.
\<close>

datatype fl = Fin real | PInf | NInf | NaN

text \<open>The nearest integer, a tie going to the even one.\<close>

definition round_even :: "real \<Rightarrow> int" where
  "round_even q =
     (let f = \<lfloor>q\<rfloor>; d = q - of_int f
      in if d < 1 / 2 then f else if 1 / 2 < d then f + 1
         else if even f then f else f + 1)"

text \<open>
  The binary exponent of a positive number, found by counting up from the least normal
  exponent \<open>-1022\<close> (where the subnormal numbers sit too) and stopping at \<open>1024\<close>, past the
  greatest.
\<close>

fun expo_search :: "nat \<Rightarrow> int \<Rightarrow> real \<Rightarrow> int" where
  "expo_search 0 k r = k"
| "expo_search (Suc n) k r = (if 2 powi (k + 1) \<le> r then expo_search n (k + 1) r else k)"

definition expo :: "real \<Rightarrow> int" where
  "expo r = expo_search 2046 (- 1022) r"

text \<open>
  Rounding a positive number to 53 significant bits: a whole multiple of the spacing
  \<open>2 powi (expo r - 52)\<close> of the binary64 numbers around it.
\<close>

definition round_pos :: "real \<Rightarrow> real" where
  "round_pos r = of_int (round_even (r / 2 powi (expo r - 52))) * 2 powi (expo r - 52)"

definition rnd64 :: "real \<Rightarrow> fl" where
  "rnd64 r =
     (if r = 0 then Fin 0
      else if 2 ^ 1024 \<le> round_pos \<bar>r\<bar> then (if r < 0 then NInf else PInf)
      else Fin (if r < 0 then - round_pos \<bar>r\<bar> else round_pos \<bar>r\<bar>))"

fun fl_neg :: "fl \<Rightarrow> fl" where
  "fl_neg (Fin a) = Fin (- a)"
| "fl_neg PInf = NInf"
| "fl_neg NInf = PInf"
| "fl_neg NaN = NaN"

fun fl_add :: "fl \<Rightarrow> fl \<Rightarrow> fl" where
  "fl_add NaN v = NaN"
| "fl_add v NaN = NaN"
| "fl_add (Fin a) (Fin b) = rnd64 (a + b)"
| "fl_add PInf NInf = NaN"
| "fl_add NInf PInf = NaN"
| "fl_add PInf v = PInf"
| "fl_add v PInf = PInf"
| "fl_add NInf v = NInf"
| "fl_add v NInf = NInf"

definition fl_sub :: "fl \<Rightarrow> fl \<Rightarrow> fl" where
  "fl_sub u v = fl_add u (fl_neg v)"

fun fl_mul :: "fl \<Rightarrow> fl \<Rightarrow> fl" where
  "fl_mul NaN v = NaN"
| "fl_mul v NaN = NaN"
| "fl_mul (Fin a) (Fin b) = rnd64 (a * b)"
| "fl_mul (Fin a) PInf = (if a = 0 then NaN else if 0 < a then PInf else NInf)"
| "fl_mul (Fin a) NInf = (if a = 0 then NaN else if 0 < a then NInf else PInf)"
| "fl_mul PInf (Fin b) = (if b = 0 then NaN else if 0 < b then PInf else NInf)"
| "fl_mul NInf (Fin b) = (if b = 0 then NaN else if 0 < b then NInf else PInf)"
| "fl_mul PInf PInf = PInf"
| "fl_mul PInf NInf = NInf"
| "fl_mul NInf PInf = NInf"
| "fl_mul NInf NInf = PInf"

fun fl_sqrt :: "fl \<Rightarrow> fl" where
  "fl_sqrt (Fin a) = (if a < 0 then NaN else rnd64 (sqrt a))"
| "fl_sqrt PInf = PInf"
| "fl_sqrt NInf = NaN"
| "fl_sqrt NaN = NaN"

fun fl_abs :: "fl \<Rightarrow> fl" where
  "fl_abs (Fin a) = Fin \<bar>a\<bar>"
| "fl_abs PInf = PInf"
| "fl_abs NInf = PInf"
| "fl_abs NaN = NaN"

text \<open>\<open><\<close>, \<open><=\<close> and \<open>==\<close> on floats: every comparison with NaN is false.\<close>

fun fl_lt :: "fl \<Rightarrow> fl \<Rightarrow> bool" where
  "fl_lt NaN v = False"
| "fl_lt v NaN = False"
| "fl_lt (Fin a) (Fin b) = (a < b)"
| "fl_lt v NInf = False"
| "fl_lt NInf v = True"
| "fl_lt PInf v = False"
| "fl_lt (Fin a) PInf = True"

definition fl_le :: "fl \<Rightarrow> fl \<Rightarrow> bool" where
  "fl_le u v = (u \<noteq> NaN \<and> v \<noteq> NaN \<and> \<not> fl_lt v u)"

definition fl_eq :: "fl \<Rightarrow> fl \<Rightarrow> bool" where
  "fl_eq u v = (u \<noteq> NaN \<and> u = v)"

text \<open>
  \<open>np.linalg.norm\<close> of a vector of two components: the square root of the sum of the
  squares, each of the three operations and the root rounded on its own (no fused
  multiply-add).
\<close>

definition norm2 :: "fl \<Rightarrow> fl \<Rightarrow> fl" where
  "norm2 u v = fl_sqrt (fl_add (fl_mul u u) (fl_mul v v))"

text \<open>\<open>Series.min()\<close>: the least value that is not NaN, and NaN when there is none.\<close>

definition series_min :: "fl list \<Rightarrow> fl" where
  "series_min vs =
     (case filter (\<lambda>v. v \<noteq> NaN) vs of
        [] \<Rightarrow> NaN
      | w # ws \<Rightarrow> fold (\<lambda>v m. if fl_lt v m then v else m) ws w)"

datatype error =
    ValueError
  | IndexError
  | KeyError string
  | FileNotFoundError string
  | ParserError
  | SystemExit int

text \<open>\<open>.iloc[0]\<close>: the first element by position, IndexError on an empty selection.\<close>

definition iloc0 :: "'a list \<Rightarrow> error + 'a" where
  "iloc0 xs = (case xs of [] \<Rightarrow> Inl IndexError | v # _ \<Rightarrow> Inr v)"

text \<open>
  A two-dimensional numpy array: its shape and the value at each index pair. Only indices
  inside the shape are ever read or written by the code below.
\<close>

record 'a array2 =
  shape0 :: nat
  shape1 :: nat
  cell :: "nat \<times> nat \<Rightarrow> 'a"

definition array_set :: "'a array2 \<Rightarrow> nat \<times> nat \<Rightarrow> 'a \<Rightarrow> 'a array2" where
  "array_set a idx v = a\<lparr>cell := (cell a)(idx := v)\<rparr>"

text \<open>
  \<open>np.nonzero\<close>: the row indices and the column indices of the nonzero cells, in row-major
  order.
\<close>

definition np_nonzero :: "int array2 \<Rightarrow> nat list \<times> nat list" where
  "np_nonzero a =
     (let idx = concat (map (\<lambda>i. map (\<lambda>j. (i, j))
                  (filter (\<lambda>j. cell a (i, j) \<noteq> 0) [0..<shape1 a])) [0..<shape0 a])
      in (map fst idx, map snd idx))"

text \<open>\<open>.min()\<close> and \<open>.max()\<close> of an index array: ValueError on a zero-size array.\<close>

definition amin :: "nat list \<Rightarrow> error + nat" where
  "amin xs = (case xs of [] \<Rightarrow> Inl ValueError | v # vs \<Rightarrow> Inr (fold min vs v))"

definition amax :: "nat list \<Rightarrow> error + nat" where
  "amax xs = (case xs of [] \<Rightarrow> Inl ValueError | v # vs \<Rightarrow> Inr (fold max vs v))"

section \<open>The runner\<close>

text \<open>One row of the solver's output table, columns \<open>x y e pro\<close>.\<close>

record row =
  x :: fl
  y :: fl
  e :: fl
  pro :: fl

text \<open>
  The fields of \<open>WHAM2DRunner\<close> that the code reads. The runner is two-dimensional:
  \<open>cvs\<close> holds one \<open>(min, max, step)\<close> triple per axis. \<open>whamconfig\<close> maps each key to
  the text \<open>str.format\<close> renders its value as. The base class \<open>UmbrellaRunner\<close> provides
  \<open>_get_lambdas_for_index\<close> and \<open>_get_sampled_lambdas\<close>; they are taken as they come
  (\<open>get_lambdas_for_index\<close>, \<open>get_sampled_lambdas\<close>).
\<close>

record runner =
  verbose :: bool
  WHAM_EXEC :: string
  tmp_folder :: string
  simulation_folder :: string
  num_iterations :: nat
  cvs :: "(real \<times> real \<times> real) \<times> (real \<times> real \<times> real)"
  whamconfig :: "string \<rightharpoonup> string"
  sample_list :: "int array2"
  pmf :: "fl array2"
  get_lambdas_for_index :: "nat \<times> nat \<Rightarrow> real \<times> real"
  get_sampled_lambdas :: "(real \<times> real) list"

text \<open>\<open>self.cvs[0][2]\<close> and \<open>self.cvs[1][2]\<close>: the lambda step of each axis.\<close>

definition step0 :: "runner \<Rightarrow> real" where
  "step0 st = snd (snd (fst (cvs st)))"

definition step1 :: "runner \<Rightarrow> real" where
  "step1 st = snd (snd (snd (cvs st)))"

subsection \<open>\<open>get_wham_borders\<close>\<close>

text \<open>
  The corner coordinates go into a float64 array; \<open>borders[k] -= 2 * step\<close> is a float
  product followed by a float difference, \<open>+=\<close> a float sum.
\<close>

definition get_wham_borders :: "runner \<Rightarrow> error + (fl \<times> fl \<times> fl \<times> fl)" where
  "get_wham_borders st =
     (let nonzero = np_nonzero (sample_list st) in
      case amin (fst nonzero) of Inl err \<Rightarrow> Inl err | Inr i0 \<Rightarrow>
     (case amin (snd nonzero) of Inl err \<Rightarrow> Inl err | Inr j0 \<Rightarrow>
     (case amax (fst nonzero) of Inl err \<Rightarrow> Inl err | Inr i1 \<Rightarrow>
     (case amax (snd nonzero) of Inl err \<Rightarrow> Inl err | Inr j1 \<Rightarrow>
      (let (b0, b1) = get_lambdas_for_index st (i0, j0);
           (b2, b3) = get_lambdas_for_index st (i1, j1)
       in Inr (fl_sub (Fin b0) (fl_mul (Fin 2) (Fin (step0 st))),
               fl_sub (Fin b1) (fl_mul (Fin 2) (Fin (step1 st))),
               fl_add (Fin b2) (fl_mul (Fin 2) (Fin (step0 st))),
               fl_add (Fin b3) (fl_mul (Fin 2) (Fin (step1 st)))))))))"

subsection \<open>\<open>update_pmf\<close>\<close>

text \<open>The row filter of the loop body: both differences strictly below the axis step.\<close>

definition in_window :: "real \<Rightarrow> real \<Rightarrow> real \<Rightarrow> real \<Rightarrow> row \<Rightarrow> bool" where
  "in_window lambdax lambday sx sy r =
     (fl_lt (fl_abs (fl_sub (x r) (Fin lambdax))) (Fin sx) \<and>
      fl_lt (fl_abs (fl_sub (y r) (Fin lambday))) (Fin sy))"

text \<open>The \<open>dist\<close> column: the norm of \<open>(lambdax - x, lambday - y)\<close>.\<close>

definition row_dist :: "real \<Rightarrow> real \<Rightarrow> row \<Rightarrow> fl" where
  "row_dist lambdax lambday r =
     norm2 (fl_sub (Fin lambdax) (x r)) (fl_sub (Fin lambday) (y r))"

text \<open>The candidate rows of a cell (\<open>reduced\<close> in the loop body).\<close>

definition reduced :: "runner \<Rightarrow> row list \<Rightarrow> nat \<times> nat \<Rightarrow> row list" where
  "reduced st wham_pmf idx =
     (let (lambdax, lambday) = get_lambdas_for_index st idx
      in filter (in_window lambdax lambday (step0 st) (step1 st)) wham_pmf)"

text \<open>The body of the two loops: the value written to \<open>self.pmf[x, y]\<close>.\<close>

definition pmf_value :: "runner \<Rightarrow> row list \<Rightarrow> nat \<times> nat \<Rightarrow> error + fl" where
  "pmf_value st wham_pmf idx =
     (let (lambdax, lambday) = get_lambdas_for_index st idx;
          red = reduced st wham_pmf idx
      in if length red = 0 then Inr PInf
         else
           (let dmin = series_min (map (row_dist lambdax lambday) red);
                mins = filter (\<lambda>r. fl_eq (row_dist lambdax lambday r) dmin) red
            in case iloc0 mins of Inl err \<Rightarrow> Inl err | Inr m \<Rightarrow>
               (let min_row = filter (\<lambda>r. fl_eq (x r) (x m) \<and> fl_eq (y r) (y m)) red
                in case iloc0 min_row of Inl err \<Rightarrow> Inl err | Inr r \<Rightarrow> Inr (e r))))"

text \<open>
  The inner loop over \<open>y\<close> and the outer loop over \<open>x\<close>. The grid is written in place,
  cell by cell, so an exception would leave the cells written so far.
\<close>

fun scan_y ::
  "runner \<Rightarrow> row list \<Rightarrow> nat \<Rightarrow> nat list \<Rightarrow> fl array2 \<Rightarrow> (error + unit) \<times> fl array2" where
  "scan_y st wham_pmf ix [] a = (Inr (), a)"
| "scan_y st wham_pmf ix (iy # ys) a =
     (case pmf_value st wham_pmf (ix, iy) of
        Inl err \<Rightarrow> (Inl err, a)
      | Inr v \<Rightarrow> scan_y st wham_pmf ix ys (array_set a (ix, iy) v))"

fun scan_x ::
  "runner \<Rightarrow> row list \<Rightarrow> nat list \<Rightarrow> fl array2 \<Rightarrow> (error + unit) \<times> fl array2" where
  "scan_x st wham_pmf [] a = (Inr (), a)"
| "scan_x st wham_pmf (ix # xs) a =
     (case scan_y st wham_pmf ix [0..<shape1 a] a of
        (Inl err, a') \<Rightarrow> (Inl err, a')
      | (Inr u, a') \<Rightarrow> scan_x st wham_pmf xs a')"

definition update_pmf :: "runner \<Rightarrow> row list \<Rightarrow> (error + unit) \<times> fl array2" where
  "update_pmf st wham_pmf = scan_x st wham_pmf [0..<shape0 (pmf st)] (pmf st)"

section \<open>Files, console and the external solver\<close>

text \<open>
  What the code sees of the outside: the files that exist with their text, the lines printed,
  and the commands handed to \<open>subprocess.call\<close> so far.
\<close>

record world =
  files :: "string \<rightharpoonup> string"
  stdout :: "string list"
  calls :: "string list"

text \<open>
  Library behaviour the code relies on and does not define: how \<open>str.format\<close> renders a
  float, what the solver process does to the files and which status it exits with, and what
  \<open>pd.read_csv\<close> makes of a file's text (the rows after the skipped header line, or a
  parse error).
\<close>

record env =
  fmt :: "real \<Rightarrow> string"
  subprocess_call :: "string \<Rightarrow> (string \<rightharpoonup> string) \<Rightarrow> int \<times> (string \<rightharpoonup> string)"
  read_csv :: "string \<Rightarrow> error + row list"

text \<open>A float in a format string: a finite one by \<open>fmt\<close>, the others by their names.\<close>

definition fmt_fl :: "env \<Rightarrow> fl \<Rightarrow> string" where
  "fmt_fl en v =
     (case v of Fin r \<Rightarrow> fmt en r | PInf \<Rightarrow> ''inf'' | NInf \<Rightarrow> ''-inf'' | NaN \<Rightarrow> ''nan'')"

definition print :: "string \<Rightarrow> world \<Rightarrow> world" where
  "print s w = w\<lparr>stdout := stdout w @ [s]\<rparr>"

definition path_exists :: "world \<Rightarrow> string \<Rightarrow> bool" where
  "path_exists w p = (files w p \<noteq> None)"

text \<open>\<open>os.path.join\<close> of two components (POSIX).\<close>

definition path_join :: "string \<Rightarrow> string \<Rightarrow> string" where
  "path_join a b =
     (if b \<noteq> [] \<and> hd b = CHR ''/'' then b
      else if a = [] \<or> last a = CHR ''/'' then a @ b
      else a @ ''/'' @ b)"

text \<open>The decimal text of an integer.\<close>

fun str_nat :: "nat \<Rightarrow> string" where
  "str_nat n =
     (if n < 10 then [''0123456789'' ! n]
      else str_nat (n div 10) @ [''0123456789'' ! (n mod 10)])"

declare str_nat.simps [simp del]

definition str_int :: "int \<Rightarrow> string" where
  "str_int i = (if i < 0 then ''-'' @ str_nat (nat (- i)) else str_nat (nat i))"

text \<open>\<open>self.whamconfig[key]\<close>: KeyError when the key is absent.\<close>

definition config_get :: "runner \<Rightarrow> string \<Rightarrow> error + string" where
  "config_get st k = (case whamconfig st k of None \<Rightarrow> Inl (KeyError k) | Some v \<Rightarrow> Inr v)"

subsection \<open>\<open>create_metadata_file\<close>\<close>

definition colvar_file :: "runner \<Rightarrow> env \<Rightarrow> real \<times> real \<Rightarrow> string" where
  "colvar_file st en l =
     path_join (path_join (simulation_folder st)
                  (''umb_'' @ fmt en (fst l) @ ''_'' @ fmt en (snd l))) ''COLVAR''"

definition file_write :: "string \<Rightarrow> string \<Rightarrow> world \<Rightarrow> world" where
  "file_write p s w =
     w\<lparr>files := (files w)(p \<mapsto> (case files w p of None \<Rightarrow> s | Some c \<Rightarrow> c @ s))\<rparr>"

text \<open>The tab character of the manifest's format string.\<close>

definition tab :: string where
  "tab = [CHR 0x09]"

text \<open>The loop over the sampled lambda pairs, writing to the open manifest \<open>out\<close>.\<close>

fun write_entries ::
  "runner \<Rightarrow> env \<Rightarrow> string \<Rightarrow> (real \<times> real) list \<Rightarrow> world \<Rightarrow> (error + unit) \<times> world" where
  "write_entries st en out [] w = (Inr (), w)"
| "write_entries st en out (l # ls) w =
     (let cf = colvar_file st en l in
      if \<not> path_exists w cf \<and> verbose st
      then write_entries st en out ls (print (''Not found: '' @ cf) w)
      else
        case config_get st ''fc_x'' of Inl err \<Rightarrow> (Inl err, w) | Inr fc_x \<Rightarrow>
       (case config_get st ''fc_y'' of Inl err \<Rightarrow> (Inl err, w) | Inr fc_y \<Rightarrow>
          write_entries st en out ls
            (file_write out
               (cf @ tab @ fmt en (fst l) @ tab @ fmt en (snd l)
                   @ tab @ fc_x @ tab @ fc_y @ ''\<newline>'') w)))"

text \<open>
  \<open>open(path, 'w')\<close> creates the manifest or empties it (its folder is there: \<open>__init__\<close>
  makes it); the loop then fills it. The path is returned.
\<close>

definition create_metadata_file :: "runner \<Rightarrow> env \<Rightarrow> world \<Rightarrow> (error + string) \<times> world" where
  "create_metadata_file st en w =
     (let path = path_join (tmp_folder st) (str_nat (num_iterations st) @ ''_metadata.dat'');
          w0 = w\<lparr>files := (files w)(path \<mapsto> [])\<rparr>
      in case write_entries st en path (get_sampled_lambdas st) w0 of
           (Inl err, w') \<Rightarrow> (Inl err, w')
         | (Inr u, w') \<Rightarrow> (Inr path, w'))"

subsection \<open>\<open>get_wham_output_file\<close> and \<open>run_wham2d\<close>\<close>

definition get_wham_output_file :: "runner \<Rightarrow> string" where
  "get_wham_output_file st =
     path_join (tmp_folder st) (str_nat (num_iterations st) @ ''_freeenergy.dat'')"

text \<open>The command line, its arguments looked up in the order the format call names them.\<close>

definition wham_cmd ::
  "runner \<Rightarrow> env \<Rightarrow> fl \<times> fl \<times> fl \<times> fl \<Rightarrow> string \<Rightarrow> string \<Rightarrow> error + string" where
  "wham_cmd st en borders metafile_path output_path =
     (case borders of (b0, b1, b2, b3) \<Rightarrow>
     (case config_get st ''Px'' of Inl err \<Rightarrow> Inl err | Inr px \<Rightarrow>
     (case config_get st ''num_bins_x'' of Inl err \<Rightarrow> Inl err | Inr frames_x \<Rightarrow>
     (case config_get st ''Py'' of Inl err \<Rightarrow> Inl err | Inr py \<Rightarrow>
     (case config_get st ''num_bins_y'' of Inl err \<Rightarrow> Inl err | Inr frames_y \<Rightarrow>
     (case config_get st ''tolerance'' of Inl err \<Rightarrow> Inl err | Inr tol \<Rightarrow>
     (case config_get st ''temperature'' of Inl err \<Rightarrow> Inl err | Inr temperature \<Rightarrow>
     (case config_get st ''mask'' of Inl err \<Rightarrow> Inl err | Inr mask_arg \<Rightarrow>
        Inr (WHAM_EXEC st @ '' Px='' @ px @ '' '' @ fmt_fl en b0 @ '' '' @ fmt_fl en b2
             @ '' '' @ frames_x @ '' Py='' @ py @ '' '' @ fmt_fl en b1 @ '' '' @ fmt_fl en b3
             @ '' '' @ frames_y @ '' '' @ tol @ '' '' @ temperature @ '' 0 ''
             @ metafile_path @ '' '' @ output_path @ '' '' @ mask_arg)))))))))"

text \<open>
  \<open>exit(1)\<close> raises SystemExit, which nothing in this class catches. The solver's own
  console output (shown or sent to the null device) is not part of the model.
\<close>

definition run_wham2d ::
  "runner \<Rightarrow> env \<Rightarrow> string \<Rightarrow> string \<Rightarrow> world \<Rightarrow> (error + unit) \<times> world" where
  "run_wham2d st en metafile_path output_path w =
     (if path_exists w output_path
      then (Inr (), print (''skipping wham, '' @ output_path @ '' already exists.'') w)
      else
        case get_wham_borders st of Inl err \<Rightarrow> (Inl err, w) | Inr borders \<Rightarrow>
       (case wham_cmd st en borders metafile_path output_path of
          Inl err \<Rightarrow> (Inl err, w)
        | Inr cmd \<Rightarrow>
            (let w1 = (if verbose st then print cmd w else w);
                 (err_code, fs) = subprocess_call en cmd (files w1);
                 w2 = w1\<lparr>files := fs, calls := calls w1 @ [cmd]\<rparr>
             in if err_code \<noteq> 0
                then (Inl (SystemExit 1),
                      print (''wham exited with error code '' @ str_int err_code) w2)
                else (Inr (), w2))))"

subsection \<open>\<open>load_wham_pmf\<close>\<close>

text \<open>\<open>df.replace([np.inf, -np.inf], np.nan)\<close> acts on every column of the frame.\<close>

definition replace_inf :: "fl \<Rightarrow> fl" where
  "replace_inf v = (if v = PInf \<or> v = NInf then NaN else v)"

definition df_replace :: "row list \<Rightarrow> row list" where
  "df_replace df =
     map (\<lambda>r. \<lparr>x = replace_inf (x r), y = replace_inf (y r),
               e = replace_inf (e r), pro = replace_inf (pro r)\<rparr>) df"

text \<open>\<open>dropna(subset=['e'], how='all')\<close>: the rows whose \<open>e\<close> is NaN go.\<close>

definition dropna_e :: "row list \<Rightarrow> row list" where
  "dropna_e df = filter (\<lambda>r. e r \<noteq> NaN) df"

definition load_wham_pmf :: "env \<Rightarrow> world \<Rightarrow> string \<Rightarrow> error + row list" where
  "load_wham_pmf en w wham_file =
     (case files w wham_file of
        None \<Rightarrow> Inl (FileNotFoundError wham_file)
      | Some txt \<Rightarrow>
          (case read_csv en txt of
             Inl err \<Rightarrow> Inl err
           | Inr df \<Rightarrow> Inr (dropna_e (df_replace df))))"

subsection \<open>\<open>calculate_new_pmf\<close>\<close>

text \<open>
  The pipeline. Its result is the returned grid or the exception that ended it, together with
  the runner (whose \<open>pmf\<close> is the only field written) and the outside world afterwards.
\<close>

definition calculate_new_pmf ::
  "runner \<Rightarrow> env \<Rightarrow> world \<Rightarrow> (error + fl array2) \<times> runner \<times> world" where
  "calculate_new_pmf st en w =
     (case create_metadata_file st en w of
        (Inl err, w1) \<Rightarrow> (Inl err, st, w1)
      | (Inr metafile_path, w1) \<Rightarrow>
          (let wham_pmf_file = get_wham_output_file st in
           case run_wham2d st en metafile_path wham_pmf_file w1 of
             (Inl err, w2) \<Rightarrow> (Inl err, st, w2)
           | (Inr u, w2) \<Rightarrow>
               (case load_wham_pmf en w2 wham_pmf_file of
                  Inl err \<Rightarrow> (Inl err, st, w2)
                | Inr wham_pmf \<Rightarrow>
                    (case update_pmf st wham_pmf of
                       (Inl err, a) \<Rightarrow> (Inl err, st\<lparr>pmf := a\<rparr>, w2)
                     | (Inr u', a) \<Rightarrow> (Inr a, st\<lparr>pmf := a\<rparr>, w2)))))"

section \<open>Notions used to state the properties\<close>

text \<open>
  The Euclidean distance from \<open>(lx, ly)\<close> to a row's \<open>(x, y)\<close> as a real number, not
  rounded, for a row whose coordinates are finite numbers (as every candidate row's are).
\<close>

definition euclid :: "real \<Rightarrow> real \<Rightarrow> row \<Rightarrow> real" where
  "euclid lx ly r =
     (case (x r, y r) of
        (Fin a, Fin b) \<Rightarrow> sqrt ((lx - a) * (lx - a) + (ly - b) * (ly - b))
      | _ \<Rightarrow> 0)"

text \<open>A float that is zero, a positive number or positive infinity.\<close>

definition fl_nonneg :: "fl \<Rightarrow> bool" where
  "fl_nonneg v = (case v of Fin a \<Rightarrow> 0 \<le> a | PInf \<Rightarrow> True | NInf \<Rightarrow> False | NaN \<Rightarrow> False)"

definition is_fin :: "fl \<Rightarrow> bool" where
  "is_fin v = (case v of Fin a \<Rightarrow> True | _ \<Rightarrow> False)"

text \<open>The rows whose energy is a finite number, in their order.\<close>

definition finite_energy_rows :: "row list \<Rightarrow> row list" where
  "finite_energy_rows df = filter (\<lambda>r. is_fin (e r)) df"

text \<open>The index pairs of the nonzero cells of a Sample Grid.\<close>

definition nonzero_cells :: "int array2 \<Rightarrow> (nat \<times> nat) set" where
  "nonzero_cells a = {(i, j). i < shape0 a \<and> j < shape1 a \<and> cell a (i, j) \<noteq> 0}"

section \<open>A concrete run\<close>

text \<open>
  A runner on a 3 by 3 grid with lambda step 1/2 on both axes and index \<open>(i, j)\<close> at
  coordinate \<open>(i/2, j/2)\<close>, sampled at index \<open>(1, 1)\<close> only, and a solver output of four
  rows around the coordinate \<open>(1, 1)\<close> of index \<open>(2, 2)\<close>. All its numbers are binary64
  numbers and every difference, square, sum and root that the run takes is one too.
\<close>

definition lambdas_ex :: "nat \<times> nat \<Rightarrow> real \<times> real" where
  "lambdas_ex idx = (real (fst idx) / 2, real (snd idx) / 2)"

definition config_ex :: "string \<rightharpoonup> string" where
  "config_ex =
     map_of [(''Px'', ''0''), (''Py'', ''0''), (''num_bins_x'', ''50''),
             (''num_bins_y'', ''50''), (''tolerance'', ''0.01''), (''temperature'', ''300''),
             (''mask'', ''1''), (''fc_x'', ''100''), (''fc_y'', ''100'')]"

definition runner_ex :: runner where
  "runner_ex =
     \<lparr>verbose = False, WHAM_EXEC = ''wham-2d'', tmp_folder = ''tmp/WHAM'',
      simulation_folder = ''tmp/simulations'', num_iterations = 3,
      cvs = ((0, 1, 1 / 2), (0, 1, 1 / 2)), whamconfig = config_ex,
      sample_list = \<lparr>shape0 = 3, shape1 = 3, cell = (\<lambda>idx. if idx = (1, 1) then 5 else 0)\<rparr>,
      pmf = \<lparr>shape0 = 3, shape1 = 3, cell = (\<lambda>idx. Fin 0)\<rparr>,
      get_lambdas_for_index = lambdas_ex,
      get_sampled_lambdas = [(0, 0), (1, 1)]\<rparr>"

text \<open>The same runner before any frame was sampled.\<close>

definition runner_zero :: runner where
  "runner_zero = runner_ex\<lparr>sample_list := \<lparr>shape0 = 3, shape1 = 3, cell = (\<lambda>idx. 0)\<rparr>\<rparr>"

text \<open>The same runner sampled at the indices \<open>(0, 1)\<close> and \<open>(2, 0)\<close>.\<close>

definition runner_two :: runner where
  "runner_two =
     runner_ex\<lparr>sample_list :=
       \<lparr>shape0 = 3, shape1 = 3,
        cell = (\<lambda>idx. if idx = (0, 1) then 5 else if idx = (2, 0) then 3 else 0)\<rparr>\<rparr>"

definition rows_ex :: "row list" where
  "rows_ex =
     [\<lparr>x = Fin 1, y = Fin (11 / 8), e = Fin 10, pro = Fin 0\<rparr>,
      \<lparr>x = Fin (3 / 4), y = Fin 1, e = Fin (- 2), pro = Fin (1 / 2)\<rparr>,
      \<lparr>x = Fin (5 / 4), y = Fin 1, e = Fin 4, pro = Fin (1 / 4)\<rparr>,
      \<lparr>x = Fin (3 / 4), y = Fin 1, e = Fin 7, pro = Fin (1 / 4)\<rparr>]"

text \<open>A single row near a corner of the window of index \<open>(2, 2)\<close>.\<close>

definition rows_corner :: "row list" where
  "rows_corner = [\<lparr>x = Fin (11 / 8), y = Fin (11 / 8), e = Fin 10, pro = Fin 0\<rparr>]"

text \<open>
  Two rows near the coordinate \<open>(0, 0)\<close> of index \<open>(0, 0)\<close>; the first is farther from it
  by less than rounding keeps.
\<close>

definition rows_tie :: "row list" where
  "rows_tie =
     [\<lparr>x = Fin (1 / 4), y = Fin (2 powi (- 30)), e = Fin 1, pro = Fin 0\<rparr>,
      \<lparr>x = Fin (1 / 4), y = Fin 0, e = Fin 2, pro = Fin 0\<rparr>]"

text \<open>
  A runner of one cell at the coordinate \<open>(- (2 powi (- 53) + 2 powi (- 60)), 0)\<close> with the
  steps \<open>1 + 2 powi (- 52)\<close> and \<open>1\<close>, and one row at \<open>(1, 0)\<close>: the difference of the
  \<open>x\<close> values is below the step, and rounds to the step.
\<close>

definition runner_edge :: runner where
  "runner_edge =
     runner_ex\<lparr>cvs := ((0, 1, 1 + 2 powi (- 52)), (0, 1, 1)),
               pmf := \<lparr>shape0 = 1, shape1 = 1, cell = (\<lambda>idx. Fin 0)\<rparr>,
               get_lambdas_for_index := (\<lambda>idx. (- (2 powi (- 53) + 2 powi (- 60)), 0))\<rparr>"

definition rows_edge :: "row list" where
  "rows_edge = [\<lparr>x = Fin 1, y = Fin 0, e = Fin 3, pro = Fin 0\<rparr>]"

text \<open>
  Two runners sampled in one cell: one at the coordinate \<open>(2 ^ 60, 2 ^ 60)\<close> with steps 1,
  one at the coordinate \<open>(0.1, 0.1)\<close> with steps \<open>0.1\<close>, where \<open>0.1\<close> is the binary64
  number \<open>3602879701896397 / 2 ^ 55\<close> that the literal denotes.
\<close>

definition runner_big :: runner where
  "runner_big =
     runner_ex\<lparr>cvs := ((0, 1, 1), (0, 1, 1)),
               get_lambdas_for_index := (\<lambda>idx. (2 ^ 60, 2 ^ 60))\<rparr>"

definition tenth :: real where
  "tenth = 3602879701896397 / 2 ^ 55"

definition runner_tenth :: runner where
  "runner_tenth =
     runner_ex\<lparr>cvs := ((0, 1, tenth), (0, 1, tenth)),
               get_lambdas_for_index := (\<lambda>idx. (tenth, tenth))\<rparr>"

text \<open>
  The outside of the run: numbers are rendered by their integer part, the solver writes the
  output file and exits with 0 (\<open>env_ex\<close>) or writes nothing and exits with 2
  (\<open>env_fail\<close>), and the output file parses to three rows, the first of infinite energy
  and the last of infinite probability. No file exists at first (\<open>world_ex\<close>), or the
  output file of the iteration is there already (\<open>world_cached\<close>).
\<close>

definition raw_ex :: "row list" where
  "raw_ex =
     [\<lparr>x = Fin (1 / 10), y = Fin (2 / 10), e = PInf, pro = Fin 0\<rparr>,
      \<lparr>x = Fin (1 / 10), y = Fin (3 / 10), e = Fin (- (3 / 2)), pro = Fin (2 / 10)\<rparr>,
      \<lparr>x = Fin 1, y = Fin 1, e = Fin 1, pro = PInf\<rparr>]"

definition env_ex :: env where
  "env_ex =
     \<lparr>fmt = (\<lambda>r. str_int \<lfloor>r\<rfloor>),
      subprocess_call = (\<lambda>cmd fs. (0, fs(''tmp/WHAM/3_freeenergy.dat'' \<mapsto> ''solved''))),
      read_csv = (\<lambda>txt. Inr raw_ex)\<rparr>"

definition env_fail :: env where
  "env_fail = env_ex\<lparr>subprocess_call := (\<lambda>cmd fs. (2, fs))\<rparr>"

definition world_ex :: world where
  "world_ex = \<lparr>files = Map.empty, stdout = [], calls = []\<rparr>"

definition world_cached :: world where
  "world_cached =
     \<lparr>files = [''tmp/WHAM/3_freeenergy.dat'' \<mapsto> ''solved''], stdout = [], calls = []\<rparr>"

section \<open>Properties of the rounding\<close>

lemma round_even_mono: "q1 \<le> q2 \<Longrightarrow> round_even q1 \<le> round_even q2"
proof -
  assume le: "q1 \<le> q2"
  then have f: "\<lfloor>q1\<rfloor> \<le> \<lfloor>q2\<rfloor>" by (rule floor_mono)
  have lo: "\<lfloor>q\<rfloor> \<le> round_even q" and hi: "round_even q \<le> \<lfloor>q\<rfloor> + 1" for q
    by (simp_all add: round_even_def Let_def)
  show ?thesis
  proof (cases "\<lfloor>q1\<rfloor> = \<lfloor>q2\<rfloor>")
    case True
    with le show ?thesis by (auto simp: round_even_def Let_def)
  next
    case False
    with f have "\<lfloor>q1\<rfloor> + 1 \<le> \<lfloor>q2\<rfloor>" by simp
    with hi [of q1] lo [of q2] show ?thesis by linarith
  qed
qed

lemma round_even_of_int: "round_even (of_int n) = n"
  by (simp add: round_even_def)

lemma round_even_nonneg: "0 \<le> q \<Longrightarrow> 0 \<le> round_even q"
  using round_even_mono [of 0 q] round_even_of_int [of 0] by simp

lemma expo_search_bounds:
  "k \<le> expo_search n k r \<and> expo_search n k r \<le> k + int n \<and>
   (k < expo_search n k r \<longrightarrow> 2 powi (expo_search n k r) \<le> r) \<and>
   (expo_search n k r < k + int n \<longrightarrow> r < 2 powi (expo_search n k r + 1))"
proof (induction n arbitrary: k)
  case 0
  then show ?case by simp
next
  case (Suc n)
  show ?case
  proof (cases "2 powi (k + 1) \<le> r")
    case True
    with Suc [of "k + 1"] show ?thesis
      by (cases "k + 1 < expo_search n (k + 1) r") auto
  next
    case False
    then show ?thesis by simp
  qed
qed

lemma expo_range: "- 1022 \<le> expo r" "expo r \<le> 1024"
  using expo_search_bounds [of "- 1022" 2046 r] by (simp_all add: expo_def)

lemma expo_lower: "- 1022 < expo r \<Longrightarrow> 2 powi (expo r) \<le> r"
  using expo_search_bounds [of "- 1022" 2046 r] by (simp add: expo_def)

lemma expo_upper: "expo r < 1024 \<Longrightarrow> r < 2 powi (expo r + 1)"
  using expo_search_bounds [of "- 1022" 2046 r] by (simp add: expo_def)

lemma expo_mono:
  assumes "r1 \<le> r2"
  shows "expo r1 \<le> expo r2"
proof (rule ccontr)
  assume "\<not> expo r1 \<le> expo r2"
  then have lt: "expo r2 < expo r1" by simp
  with expo_range [of r2] have "- 1022 < expo r1" by simp
  then have "2 powi (expo r1) \<le> r1" by (rule expo_lower)
  moreover from lt expo_range [of r1] have "expo r2 < 1024" by simp
  then have "r2 < 2 powi (expo r2 + 1)" by (rule expo_upper)
  moreover from lt have "(2 :: real) powi (expo r2 + 1) \<le> 2 powi (expo r1)"
    by (intro power_int_increasing) simp_all
  ultimately show False using assms by linarith
qed

lemma expo_eq:
  assumes "k = - 1022 \<or> 2 powi k \<le> r" and "r < 2 powi (k + 1)"
    and "- 1022 \<le> k" and "k \<le> 1023"
  shows "expo r = k"
proof (rule antisym)
  show "expo r \<le> k"
  proof (rule ccontr)
    assume "\<not> expo r \<le> k"
    then have "k + 1 \<le> expo r" by simp
    then have "(2 :: real) powi (k + 1) \<le> 2 powi (expo r)"
      by (intro power_int_increasing) simp_all
    moreover have "2 powi (expo r) \<le> r"
      using \<open>k + 1 \<le> expo r\<close> assms(3) by (intro expo_lower) simp
    ultimately show False using assms(2) by linarith
  qed
  show "k \<le> expo r"
  proof (rule ccontr)
    assume "\<not> k \<le> expo r"
    then have lt: "expo r + 1 \<le> k" by simp
    then have "(2 :: real) powi (expo r + 1) \<le> 2 powi k"
      by (intro power_int_increasing) simp_all
    moreover have "r < 2 powi (expo r + 1)"
      using lt assms(4) by (intro expo_upper) simp
    moreover have "2 powi k \<le> r"
      using assms(1) lt expo_range(1) [of r] by auto
    ultimately show False by linarith
  qed
qed

lemma round_pos_nonneg: "0 \<le> r \<Longrightarrow> 0 \<le> round_pos r"
  by (simp add: round_pos_def round_even_nonneg)

lemma pow_split53: "(2 :: real) powi (k + 1) = 2 ^ 53 * 2 powi (k - 52)"
proof -
  have "(2 :: real) powi (53 + (k - 52)) = 2 powi 53 * 2 powi (k - 52)"
    by (rule power_int_add) simp
  moreover have "53 + (k - 52) = k + 1" by simp
  ultimately show ?thesis by simp
qed

lemma pow_split52: "(2 :: real) powi k = 2 ^ 52 * 2 powi (k - 52)"
proof -
  have "(2 :: real) powi (52 + (k - 52)) = 2 powi 52 * 2 powi (k - 52)"
    by (rule power_int_add) simp
  moreover have "52 + (k - 52) = k" by simp
  ultimately show ?thesis by simp
qed

lemma round_pos_le_pow:
  assumes "0 \<le> r" and "expo r < 1024"
  shows "round_pos r \<le> 2 powi (expo r + 1)"
proof -
  define u where "u = (2 :: real) powi (expo r - 52)"
  have u: "0 < u" by (simp add: u_def)
  have "r < 2 ^ 53 * u"
    using expo_upper [OF assms(2)] pow_split53 [of "expo r"] by (simp add: u_def)
  then have "r / u \<le> of_int (2 ^ 53)"
    using u by (simp add: pos_divide_le_eq)
  then have "round_even (r / u) \<le> round_even (of_int (2 ^ 53))"
    by (rule round_even_mono)
  then have "round_even (r / u) \<le> 2 ^ 53"
    by (simp only: round_even_of_int)
  then have "real_of_int (round_even (r / u)) \<le> real_of_int (2 ^ 53)"
    by (simp only: of_int_le_iff)
  then have "real_of_int (round_even (r / u)) * u \<le> real_of_int (2 ^ 53) * u"
    using u by (intro mult_right_mono) simp_all
  also have "real_of_int (2 ^ 53) * u = 2 powi (expo r + 1)"
    using pow_split53 [of "expo r"] by (simp add: u_def)
  finally show ?thesis by (simp add: round_pos_def u_def)
qed

lemma round_pos_ge_pow:
  assumes "- 1022 < expo r"
  shows "2 powi (expo r) \<le> round_pos r"
proof -
  define u where "u = (2 :: real) powi (expo r - 52)"
  have u: "0 < u" by (simp add: u_def)
  have "2 ^ 52 * u \<le> r"
    using expo_lower [OF assms] pow_split52 [of "expo r"] by (simp add: u_def)
  then have "of_int (2 ^ 52) \<le> r / u"
    using u by (simp add: pos_le_divide_eq)
  then have "round_even (of_int (2 ^ 52)) \<le> round_even (r / u)"
    by (rule round_even_mono)
  then have "2 ^ 52 \<le> round_even (r / u)"
    by (simp only: round_even_of_int)
  then have "real_of_int (2 ^ 52) \<le> real_of_int (round_even (r / u))"
    by (simp only: of_int_le_iff)
  then have le: "real_of_int (2 ^ 52) * u \<le> real_of_int (round_even (r / u)) * u"
    using u by (intro mult_right_mono) simp_all
  have "2 powi (expo r) = real_of_int (2 ^ 52) * u"
    using pow_split52 [of "expo r"] by (simp add: u_def)
  also note le
  finally show ?thesis by (simp add: round_pos_def u_def)
qed

lemma round_pos_mono:
  assumes "0 \<le> r1" and "r1 \<le> r2"
  shows "round_pos r1 \<le> round_pos r2"
proof (cases "expo r1 = expo r2")
  case True
  let ?u = "(2 :: real) powi (expo r2 - 52)"
  have u: "0 < ?u" by simp
  have "r1 / ?u \<le> r2 / ?u" using assms(2) u by (simp add: divide_right_mono)
  then have "round_even (r1 / ?u) \<le> round_even (r2 / ?u)" by (rule round_even_mono)
  then have "of_int (round_even (r1 / ?u)) * ?u \<le> of_int (round_even (r2 / ?u)) * ?u"
    using u by (intro mult_right_mono) simp_all
  then show ?thesis by (simp add: round_pos_def True)
next
  case False
  with expo_mono [OF assms(2)] have lt: "expo r1 < expo r2" by simp
  with expo_range [of r2] have "expo r1 < 1024" by simp
  from round_pos_le_pow [OF assms(1) this]
  have 1: "round_pos r1 \<le> 2 powi (expo r1 + 1)" .
  from lt expo_range [of r1] have "- 1022 < expo r2" by simp
  from round_pos_ge_pow [OF this] have 2: "2 powi (expo r2) \<le> round_pos r2" .
  from lt have "(2 :: real) powi (expo r1 + 1) \<le> 2 powi (expo r2)"
    by (intro power_int_increasing) simp_all
  with 1 2 show ?thesis by linarith
qed

lemma rnd64_not_NaN [simp]: "rnd64 r \<noteq> NaN"
  by (simp add: rnd64_def)

lemma rnd64_minus: "rnd64 (- r) = fl_neg (rnd64 r)"
  by (simp add: rnd64_def)

lemma rnd64_nonneg:
  assumes "0 \<le> r"
  shows "rnd64 r = PInf \<or> (\<exists>v. rnd64 r = Fin v \<and> 0 \<le> v)"
  using assms round_pos_nonneg [of "\<bar>r\<bar>"] by (auto simp: rnd64_def)


lemma rnd64_mono:
  assumes "r1 \<le> r2"
  shows "fl_le (rnd64 r1) (rnd64 r2)"
proof -
  consider "0 < r1" | "r2 < 0" | "r1 \<le> 0" "0 \<le> r2" using assms by linarith
  then show ?thesis
  proof cases
    case 1
    then have "round_pos \<bar>r1\<bar> \<le> round_pos \<bar>r2\<bar>"
      using assms by (intro round_pos_mono) simp_all
    with 1 assms show ?thesis by (auto simp: rnd64_def fl_le_def)
  next
    case 2
    then have "round_pos \<bar>r2\<bar> \<le> round_pos \<bar>r1\<bar>"
      using assms by (intro round_pos_mono) simp_all
    with 2 assms show ?thesis by (auto simp: rnd64_def fl_le_def)
  next
    case 3
    have "0 \<le> round_pos \<bar>r1\<bar>" "0 \<le> round_pos \<bar>r2\<bar>"
      by (simp_all add: round_pos_nonneg)
    with 3 show ?thesis by (auto simp: rnd64_def fl_le_def)
  qed
qed


lemma rnd64_eval:
  assumes "0 < r" and "k = - 1022 \<or> 2 powi k \<le> r" and "r < 2 powi (k + 1)"
    and "- 1022 \<le> k" and "k \<le> 1023"
    and "round_even (r / 2 powi (k - 52)) = m"
    and "of_int m * 2 powi (k - 52) = v" and "v < 2 ^ 1024"
  shows "rnd64 r = Fin v" and "rnd64 (- r) = Fin (- v)"
proof -
  have "expo r = k" using assms(2-5) by (rule expo_eq)
  then have "round_pos r = v" using assms(6,7) by (simp add: round_pos_def)
  with assms(1,8) show "rnd64 r = Fin v" "rnd64 (- r) = Fin (- v)"
    by (simp_all add: rnd64_def)
qed



lemma rnd64_exact:
  assumes "of_int m * 2 powi j = r" and "2 ^ 52 \<le> m" and "m < 2 ^ 53"
    and "- 1074 \<le> j" and "j \<le> 971"
  shows "rnd64 r = Fin r" and "rnd64 (- r) = Fin (- r)"
proof -
  have "real_of_int (2 ^ 52) \<le> real_of_int m" "real_of_int m < real_of_int (2 ^ 53)"
    using assms(2,3) by (simp_all only: of_int_le_iff of_int_less_iff)
  then have m: "(2 :: real) ^ 52 \<le> of_int m" "of_int m < (2 :: real) ^ 53"
    by simp_all
  have u: "0 < (2 :: real) powi j" by simp
  have pos: "0 < r" using m(1) u unfolding assms(1) [symmetric] by (intro mult_pos_pos) simp_all
  have split: "(2 :: real) powi (j + 52) = 2 ^ 52 * 2 powi j"
    using pow_split52 [of "j + 52"] by simp
  have split': "(2 :: real) powi (j + 52 + 1) = 2 ^ 53 * 2 powi j"
    using pow_split53 [of "j + 52"] by simp
  have lo: "j + 52 = - 1022 \<or> 2 powi (j + 52) \<le> r"
    unfolding split assms(1) [symmetric] using m(1) u by (simp add: mult_right_mono)
  have hi: "r < 2 powi (j + 52 + 1)"
    unfolding split' assms(1) [symmetric] using m(2) u by (simp add: mult_strict_right_mono)
  have q: "round_even (r / 2 powi (j + 52 - 52)) = m"
    unfolding assms(1) [symmetric] by (simp add: round_even_of_int)
  have v: "of_int m * 2 powi (j + 52 - 52) = r"
    using assms(1) by simp
  have "(2 :: real) powi (j + 52 + 1) \<le> 2 powi 1024"
    using assms(5) by (intro power_int_increasing) simp_all
  with hi have big: "r < 2 ^ 1024" by simp
  have k: "- 1022 \<le> j + 52" "j + 52 \<le> 1023" using assms(4,5) by simp_all
  show "rnd64 r = Fin r"
    by (rule rnd64_eval(1) [OF pos lo hi k q v big])
  show "rnd64 (- r) = Fin (- r)"
    by (rule rnd64_eval(2) [OF pos lo hi k q v big])
qed

section \<open>Properties of \<open>update_pmf\<close>\<close>

lemma rnd64_lower:
  assumes "rnd64 s = Fin s" and "s \<le> d"
  shows "rnd64 d = PInf \<or> (\<exists>v. rnd64 d = Fin v \<and> s \<le> v)"
proof -
  from rnd64_mono [OF assms(2)] have "fl_le (Fin s) (rnd64 d)" by (simp add: assms(1))
  then show ?thesis by (cases "rnd64 d") (simp_all add: fl_le_def)
qed

lemma rnd64_upper:
  assumes "rnd64 s = Fin s" and "d \<le> s"
  shows "rnd64 d = NInf \<or> (\<exists>v. rnd64 d = Fin v \<and> v \<le> s)"
proof -
  from rnd64_mono [OF assms(2)] have "fl_le (rnd64 d) (Fin s)" by (simp add: assms(1))
  then show ?thesis by (cases "rnd64 d") (simp_all add: fl_le_def)
qed

lemma outside_not_below:
  assumes s: "rnd64 s = Fin s" and far: "s \<le> \<bar>d\<bar>"
  shows "\<not> fl_lt (fl_abs (rnd64 d)) (Fin s)"
proof (cases "s \<le> d")
  case True
  from rnd64_lower [OF s True] show ?thesis by auto
next
  case False
  with far have "d \<le> - s" by linarith
  moreover have "rnd64 (- s) = Fin (- s)" by (simp add: rnd64_minus s)
  ultimately have "rnd64 d = NInf \<or> (\<exists>v. rnd64 d = Fin v \<and> v \<le> - s)"
    by (intro rnd64_upper)
  then show ?thesis by auto
qed

lemma in_window_iff:
  "in_window lx ly sx sy r \<longleftrightarrow>
     (\<exists>a b dx dy. x r = Fin a \<and> y r = Fin b \<and>
        rnd64 (a - lx) = Fin dx \<and> \<bar>dx\<bar> < sx \<and> rnd64 (b - ly) = Fin dy \<and> \<bar>dy\<bar> < sy)"
proof -
  have one: "fl_lt (fl_abs (fl_sub v (Fin l))) (Fin s) \<longleftrightarrow>
      (\<exists>a d. v = Fin a \<and> rnd64 (a - l) = Fin d \<and> \<bar>d\<bar> < s)" for v l s
  proof (cases v)
    case (Fin a)
    then show ?thesis by (cases "rnd64 (a - l)") (simp_all add: fl_sub_def)
  qed (simp_all add: fl_sub_def)
  show ?thesis unfolding in_window_def one by blast
qed

lemma in_window_outside:
  assumes "rnd64 sx = Fin sx" and "rnd64 sy = Fin sy"
    and "\<not> (\<exists>a b. x r = Fin a \<and> y r = Fin b \<and> \<bar>a - lx\<bar> < sx \<and> \<bar>b - ly\<bar> < sy)"
  shows "\<not> in_window lx ly sx sy r"
proof
  assume "in_window lx ly sx sy r"
  then obtain a b dx dy where r: "x r = Fin a" "y r = Fin b"
    and dx: "rnd64 (a - lx) = Fin dx" "\<bar>dx\<bar> < sx"
    and dy: "rnd64 (b - ly) = Fin dy" "\<bar>dy\<bar> < sy"
    unfolding in_window_iff by blast
  from assms(3) r have "sx \<le> \<bar>a - lx\<bar> \<or> sy \<le> \<bar>b - ly\<bar>" by force
  then show False
  proof
    assume "sx \<le> \<bar>a - lx\<bar>"
    from outside_not_below [OF assms(1) this] dx show False by simp
  next
    assume "sy \<le> \<bar>b - ly\<bar>"
    from outside_not_below [OF assms(2) this] dy show False by simp
  qed
qed

lemma fl_lt_irrefl: "\<not> fl_lt v v"
  by (cases v) simp_all

lemma fl_lt_trans: "fl_lt u v \<Longrightarrow> fl_lt v w \<Longrightarrow> fl_lt u w"
  by (cases u; cases v; cases w) simp_all

lemma fl_lt_cotrans:
  "v \<noteq> NaN \<Longrightarrow> \<not> fl_lt u v \<Longrightarrow> \<not> fl_lt v w \<Longrightarrow> \<not> fl_lt u w"
  by (cases u; cases v; cases w) simp_all

lemma fold_min_least:
  assumes "w \<noteq> NaN" and "NaN \<notin> set ws"
  shows "fold (\<lambda>v m. if fl_lt v m then v else m) ws w \<in> set (w # ws) \<and>
         (\<forall>v\<in>set (w # ws). \<not> fl_lt v (fold (\<lambda>v m. if fl_lt v m then v else m) ws w))"
  using assms
proof (induction ws arbitrary: w)
  case Nil
  then show ?case by (simp add: fl_lt_irrefl)
next
  case (Cons v ws)
  let ?w' = "if fl_lt v w then v else w"
  let ?m = "fold (\<lambda>v m. if fl_lt v m then v else m) ws ?w'"
  from Cons.prems have w': "?w' \<noteq> NaN" and ws: "NaN \<notin> set ws" by auto
  from Cons.IH [OF w' ws] have mem: "?m \<in> set (?w' # ws)"
    and least: "\<forall>u\<in>set (?w' # ws). \<not> fl_lt u ?m"
    by blast+
  from least have m': "\<not> fl_lt ?w' ?m" by simp
  have "\<not> fl_lt w ?m"
  proof (cases "fl_lt v w")
    case True
    show ?thesis
    proof
      assume "fl_lt w ?m"
      with True have "fl_lt v ?m" by (rule fl_lt_trans)
      with m' True show False by simp
    qed
  next
    case False
    with m' show ?thesis by simp
  qed
  moreover have "\<not> fl_lt v ?m"
  proof (cases "fl_lt v w")
    case True
    with m' show ?thesis by simp
  next
    case False
    with m' have "\<not> fl_lt w ?m" by simp
    with False Cons.prems(1) show ?thesis using fl_lt_cotrans [of w v ?m] by blast
  qed
  ultimately have "\<forall>u\<in>set (w # v # ws). \<not> fl_lt u ?m"
    using least by simp
  moreover from mem have "?m \<in> set (w # v # ws)" by auto
  ultimately show ?case by simp
qed

lemma series_min_least:
  assumes "vs \<noteq> []" and "NaN \<notin> set vs"
  shows "series_min vs \<in> set vs \<and> (\<forall>v\<in>set vs. \<not> fl_lt v (series_min vs))"
proof -
  from assms(1) obtain w ws where vs: "vs = w # ws" by (cases vs) auto
  have "filter (\<lambda>v. v \<noteq> NaN) vs = vs"
    using assms(2) by (simp add: filter_id_conv) metis
  then have "series_min vs = fold (\<lambda>v m. if fl_lt v m then v else m) ws w"
    by (simp add: series_min_def vs)
  moreover have "w \<noteq> NaN" "NaN \<notin> set ws" using assms(2) vs by auto
  ultimately show ?thesis using fold_min_least [of w ws] vs by simp
qed

lemma iloc0_filter_first:
  "filter P xs \<noteq> [] \<Longrightarrow>
     \<exists>k<length xs. iloc0 (filter P xs) = Inr (xs ! k) \<and> P (xs ! k) \<and> (\<forall>j<k. \<not> P (xs ! j))"
proof (induction xs)
  case Nil
  then show ?case by simp
next
  case (Cons a xs)
  show ?case
  proof (cases "P a")
    case True
    then have "iloc0 (filter P (a # xs)) = Inr ((a # xs) ! 0) \<and> P ((a # xs) ! 0)"
      by (simp add: iloc0_def)
    then show ?thesis by blast
  next
    case False
    with Cons obtain k where k: "k < length xs" "iloc0 (filter P xs) = Inr (xs ! k)"
      "P (xs ! k)" "\<forall>j<k. \<not> P (xs ! j)"
      by auto
    have "\<forall>j<Suc k. \<not> P ((a # xs) ! j)"
      using False k(4) by (auto simp: nth_Cons split: nat.splits)
    with k False have "Suc k < length (a # xs) \<and>
        iloc0 (filter P (a # xs)) = Inr ((a # xs) ! Suc k) \<and> P ((a # xs) ! Suc k) \<and>
        (\<forall>j<Suc k. \<not> P ((a # xs) ! j))"
      by simp
    then show ?thesis by blast
  qed
qed

lemma reduced_in_window:
  assumes "get_lambdas_for_index st idx = (lx, ly)" and "r \<in> set (reduced st rows idx)"
  shows "in_window lx ly (step0 st) (step1 st) r"
  using assms by (simp add: reduced_def)

lemma fl_mul_self_nonneg: "u \<noteq> NaN \<Longrightarrow> fl_nonneg (fl_mul u u)"
proof (cases u)
  case (Fin a)
  have "0 \<le> a * a" by simp
  from rnd64_nonneg [OF this] Fin show ?thesis by (auto simp: fl_nonneg_def)
qed (simp_all add: fl_nonneg_def)

lemma fl_add_nonneg: "fl_nonneg u \<Longrightarrow> fl_nonneg v \<Longrightarrow> fl_nonneg (fl_add u v)"
proof (cases u; cases v)
  fix a b assume uv: "u = Fin a" "v = Fin b" and "fl_nonneg u" "fl_nonneg v"
  then have "0 \<le> a + b" by (simp add: fl_nonneg_def)
  from rnd64_nonneg [OF this] uv show "fl_nonneg (fl_add u v)" by (auto simp: fl_nonneg_def)
qed (simp_all add: fl_nonneg_def)

lemma fl_sqrt_nonneg: "fl_nonneg u \<Longrightarrow> fl_nonneg (fl_sqrt u)"
proof (cases u)
  case (Fin a)
  assume "fl_nonneg u"
  with Fin have a: "0 \<le> a" by (simp add: fl_nonneg_def)
  then have "0 \<le> sqrt a" by simp
  from rnd64_nonneg [OF this] Fin a show ?thesis by (auto simp: fl_nonneg_def)
qed (simp_all add: fl_nonneg_def)

lemma norm2_not_NaN: "u \<noteq> NaN \<Longrightarrow> v \<noteq> NaN \<Longrightarrow> norm2 u v \<noteq> NaN"
proof -
  assume "u \<noteq> NaN" "v \<noteq> NaN"
  then have "fl_nonneg (norm2 u v)"
    unfolding norm2_def by (intro fl_sqrt_nonneg fl_add_nonneg fl_mul_self_nonneg)
  then show ?thesis by (auto simp: fl_nonneg_def)
qed

lemma row_dist_not_NaN:
  assumes "in_window lx ly sx sy r"
  shows "row_dist lx ly r \<noteq> NaN"
proof -
  from assms obtain a b where "x r = Fin a" "y r = Fin b"
    unfolding in_window_iff by blast
  then show ?thesis
    unfolding row_dist_def by (intro norm2_not_NaN) (simp_all add: fl_sub_def)
qed

lemma same_xy_same_dist:
  "x r = x r' \<Longrightarrow> y r = y r' \<Longrightarrow> row_dist lx ly r = row_dist lx ly r'"
  by (simp add: row_dist_def)

lemma pmf_value_nearest:
  assumes lam: "get_lambdas_for_index st idx = (lx, ly)"
    and ne: "reduced st rows idx \<noteq> []"
  shows "\<exists>k<length (reduced st rows idx).
           pmf_value st rows idx = Inr (e (reduced st rows idx ! k)) \<and>
           (\<forall>r\<in>set (reduced st rows idx).
              row_dist lx ly r \<noteq> NaN \<and>
              \<not> fl_lt (row_dist lx ly r) (row_dist lx ly (reduced st rows idx ! k))) \<and>
           (\<forall>j<k. row_dist lx ly (reduced st rows idx ! j)
                     \<noteq> row_dist lx ly (reduced st rows idx ! k))"
proof -
  define red where "red = reduced st rows idx"
  define d where "d = series_min (map (row_dist lx ly) red)"
  define P where "P = (\<lambda>r. row_dist lx ly r = d)"
  have win: "\<And>r. r \<in> set red \<Longrightarrow> in_window lx ly (step0 st) (step1 st) r"
    using reduced_in_window [OF lam] unfolding red_def by blast
  have fin: "\<And>r. r \<in> set red \<Longrightarrow> x r \<noteq> NaN \<and> y r \<noteq> NaN"
    using win unfolding in_window_iff by fastforce
  have nn: "\<And>r. r \<in> set red \<Longrightarrow> row_dist lx ly r \<noteq> NaN"
    using win row_dist_not_NaN by blast
  have red_ne: "red \<noteq> []" using ne by (simp add: red_def)
  have "map (row_dist lx ly) red \<noteq> []" "NaN \<notin> set (map (row_dist lx ly) red)"
    using red_ne nn by (simp, force)
  from series_min_least [OF this]
  have d_in: "d \<in> set (map (row_dist lx ly) red)"
    and d_least: "\<forall>v\<in>set (map (row_dist lx ly) red). \<not> fl_lt v d"
    unfolding d_def by blast+
  have mins: "filter (\<lambda>r. fl_eq (row_dist lx ly r) d) red = filter P red"
    by (rule filter_cong) (simp_all add: nn fl_eq_def P_def)
  from d_in have "filter P red \<noteq> []"
    by (auto simp: P_def filter_empty_conv)
  from iloc0_filter_first [OF this]
  obtain k where k: "k < length red" "iloc0 (filter P red) = Inr (red ! k)"
    "P (red ! k)" "\<forall>j<k. \<not> P (red ! j)"
    by blast
  define Q where "Q = (\<lambda>r::row. x r = x (red ! k) \<and> y r = y (red ! k))"
  have kin: "red ! k \<in> set red" using k(1) by simp
  have minrow: "filter (\<lambda>r. fl_eq (x r) (x (red ! k)) \<and> fl_eq (y r) (y (red ! k))) red
      = filter Q red"
    by (rule filter_cong) (simp_all add: fin fl_eq_def Q_def)
  have "Q (red ! k)" by (simp add: Q_def)
  with kin have "filter Q red \<noteq> []"
    by (auto simp: filter_empty_conv)
  from iloc0_filter_first [OF this]
  obtain k' where k': "k' < length red" "iloc0 (filter Q red) = Inr (red ! k')"
    "Q (red ! k')" "\<forall>j<k'. \<not> Q (red ! j)"
    by blast
  have "P (red ! k')"
    using k'(3) k(3) same_xy_same_dist [of "red ! k'" "red ! k" lx ly] by (simp add: P_def Q_def)
  with k(4) have "\<not> k' < k" by blast
  moreover have "\<not> k < k'" using k'(4) \<open>Q (red ! k)\<close> by blast
  ultimately have kk: "k' = k" by simp
  have val: "pmf_value st rows idx = Inr (e (red ! k))"
    unfolding pmf_value_def
    using lam red_ne k(2) k'(2) kk
    by (simp add: red_def [symmetric] d_def [symmetric] mins minrow)
  have dk: "row_dist lx ly (red ! k) = d" using k(3) by (simp add: P_def)
  have least: "\<forall>r\<in>set red. row_dist lx ly r \<noteq> NaN \<and>
      \<not> fl_lt (row_dist lx ly r) (row_dist lx ly (red ! k))"
    using d_least nn unfolding dk by simp
  have first: "\<forall>j<k. row_dist lx ly (red ! j) \<noteq> row_dist lx ly (red ! k)"
    using k(4) unfolding dk by (simp add: P_def)
  from k(1) val least first show ?thesis
    unfolding red_def by blast
qed

lemma pmf_value_empty:
  "reduced st rows idx = [] \<Longrightarrow> pmf_value st rows idx = Inr PInf"
  by (simp add: pmf_value_def split: prod.splits)

lemma pmf_value_candidate:
  assumes "reduced st rows idx \<noteq> []"
  shows "\<exists>r\<in>set (reduced st rows idx). pmf_value st rows idx = Inr (e r)"
proof -
  obtain lx ly where lam: "get_lambdas_for_index st idx = (lx, ly)"
    by (cases "get_lambdas_for_index st idx")
  from pmf_value_nearest [OF lam assms] show ?thesis
    by (metis nth_mem)
qed

lemma pmf_value_total: "\<exists>v. pmf_value st rows idx = Inr v"
  using pmf_value_empty pmf_value_candidate by (cases "reduced st rows idx = []") blast+

lemma reduced_idem: "reduced st (reduced st rows idx) idx = reduced st rows idx"
  by (simp add: reduced_def split: prod.splits)

lemma pmf_value_reduced: "pmf_value st (reduced st rows idx) idx = pmf_value st rows idx"
  by (simp add: pmf_value_def reduced_idem)

lemma scan_y_result:
  "\<exists>a'. scan_y st rows ix ys a = (Inr (), a') \<and>
        shape0 a' = shape0 a \<and> shape1 a' = shape1 a \<and>
        (\<forall>iy\<in>set ys. pmf_value st rows (ix, iy) = Inr (cell a' (ix, iy))) \<and>
        (\<forall>idx. idx \<notin> {ix} \<times> set ys \<longrightarrow> cell a' idx = cell a idx)"
proof (induction ys arbitrary: a)
  case Nil
  then show ?case by simp
next
  case (Cons iy ys)
  obtain v where v: "pmf_value st rows (ix, iy) = Inr v"
    using pmf_value_total by blast
  define b where "b = array_set a (ix, iy) v"
  from Cons [of b] obtain a' where a':
    "scan_y st rows ix ys b = (Inr (), a')" "shape0 a' = shape0 b" "shape1 a' = shape1 b"
    "\<forall>jy\<in>set ys. pmf_value st rows (ix, jy) = Inr (cell a' (ix, jy))"
    "\<forall>idx. idx \<notin> {ix} \<times> set ys \<longrightarrow> cell a' idx = cell b idx"
    by blast
  have b: "shape0 b = shape0 a" "shape1 b = shape1 a" "cell b (ix, iy) = v"
    "\<And>idx. idx \<noteq> (ix, iy) \<Longrightarrow> cell b idx = cell a idx"
    by (simp_all add: b_def array_set_def)
  have 1: "scan_y st rows ix (iy # ys) a = (Inr (), a')"
    using v a'(1) by (simp add: b_def)
  have 2: "pmf_value st rows (ix, iy) = Inr (cell a' (ix, iy))"
  proof (cases "iy \<in> set ys")
    case True
    with a'(4) show ?thesis by blast
  next
    case False
    then have "cell a' (ix, iy) = cell b (ix, iy)" using a'(5) by simp
    with v b(3) show ?thesis by simp
  qed
  have 3: "\<forall>idx. idx \<notin> {ix} \<times> set (iy # ys) \<longrightarrow> cell a' idx = cell a idx"
  proof (intro allI impI)
    fix idx assume "idx \<notin> {ix} \<times> set (iy # ys)"
    then have "idx \<notin> {ix} \<times> set ys" "idx \<noteq> (ix, iy)" by auto
    then show "cell a' idx = cell a idx" using a'(5) b(4) by metis
  qed
  from 1 2 3 a'(2,3,4) b(1,2) show ?case by auto
qed

lemma scan_x_result:
  "\<exists>a'. scan_x st rows xs a = (Inr (), a') \<and>
        shape0 a' = shape0 a \<and> shape1 a' = shape1 a \<and>
        (\<forall>ix\<in>set xs. \<forall>iy<shape1 a. pmf_value st rows (ix, iy) = Inr (cell a' (ix, iy))) \<and>
        (\<forall>idx. idx \<notin> set xs \<times> {..<shape1 a} \<longrightarrow> cell a' idx = cell a idx)"
proof (induction xs arbitrary: a)
  case Nil
  then show ?case by simp
next
  case (Cons ix xs)
  from scan_y_result [of st rows ix "[0..<shape1 a]" a] obtain b where b:
    "scan_y st rows ix [0..<shape1 a] a = (Inr (), b)" "shape0 b = shape0 a"
    "shape1 b = shape1 a"
    "\<forall>iy<shape1 a. pmf_value st rows (ix, iy) = Inr (cell b (ix, iy))"
    "\<forall>idx. idx \<notin> {ix} \<times> {..<shape1 a} \<longrightarrow> cell b idx = cell a idx"
    by auto
  from Cons [of b] obtain a' where a':
    "scan_x st rows xs b = (Inr (), a')" "shape0 a' = shape0 b" "shape1 a' = shape1 b"
    "\<forall>jx\<in>set xs. \<forall>iy<shape1 a. pmf_value st rows (jx, iy) = Inr (cell a' (jx, iy))"
    "\<forall>idx. idx \<notin> set xs \<times> {..<shape1 a} \<longrightarrow> cell a' idx = cell b idx"
    unfolding b(3) by blast
  have 1: "scan_x st rows (ix # xs) a = (Inr (), a')"
    using b(1) a'(1) by simp
  have 2: "\<forall>iy<shape1 a. pmf_value st rows (ix, iy) = Inr (cell a' (ix, iy))"
  proof (intro allI impI)
    fix iy assume iy: "iy < shape1 a"
    show "pmf_value st rows (ix, iy) = Inr (cell a' (ix, iy))"
    proof (cases "ix \<in> set xs")
      case True
      with a'(4) iy show ?thesis by blast
    next
      case False
      then have "cell a' (ix, iy) = cell b (ix, iy)" using a'(5) by simp
      with b(4) iy show ?thesis by simp
    qed
  qed
  have 3: "\<forall>idx. idx \<notin> set (ix # xs) \<times> {..<shape1 a} \<longrightarrow> cell a' idx = cell a idx"
  proof (intro allI impI)
    fix idx assume "idx \<notin> set (ix # xs) \<times> {..<shape1 a}"
    then have "idx \<notin> set xs \<times> {..<shape1 a}" "idx \<notin> {ix} \<times> {..<shape1 a}" by auto
    then show "cell a' idx = cell a idx" using a'(5) b(5) by metis
  qed
  from 1 2 3 a'(2,3,4) b(2,3) show ?case by auto
qed

lemma update_pmf_cells:
  "\<exists>a'. update_pmf st rows = (Inr (), a') \<and>
        shape0 a' = shape0 (pmf st) \<and> shape1 a' = shape1 (pmf st) \<and>
        (\<forall>ix<shape0 (pmf st). \<forall>iy<shape1 (pmf st).
           pmf_value st rows (ix, iy) = Inr (cell a' (ix, iy))) \<and>
        (\<forall>idx. idx \<notin> {..<shape0 (pmf st)} \<times> {..<shape1 (pmf st)}
           \<longrightarrow> cell a' idx = cell (pmf st) idx)"
  unfolding update_pmf_def
  using scan_x_result [of st rows "[0..<shape0 (pmf st)]" "pmf st"]
  by (auto simp: lessThan_atLeast0)

text \<open>
  C1, as the code has it. For an index pair \<open>(ix, iy)\<close> of the PMF Grid whose coordinate has a
  candidate row, \<open>update_pmf\<close> completes and the cell holds the energy of the candidate row
  number \<open>k\<close>, where no candidate has a smaller distance in the \<open>dist\<close> column (the
  distance as float64 arithmetic computes it), no earlier candidate has the same computed
  distance, and no earlier candidate has the same \<open>(x, y)\<close>.
\<close>

theorem update_pmf_nearest_row:
  assumes "ix < shape0 (pmf st)" and "iy < shape1 (pmf st)"
    and "get_lambdas_for_index st (ix, iy) = (lx, ly)"
    and "red = reduced st wham_pmf (ix, iy)"
    and "red \<noteq> []"
  shows "\<exists>a' k. update_pmf st wham_pmf = (Inr (), a') \<and> k < length red \<and>
           cell a' (ix, iy) = e (red ! k) \<and>
           (\<forall>r\<in>set red. row_dist lx ly r \<noteq> NaN \<and>
                         \<not> fl_lt (row_dist lx ly r) (row_dist lx ly (red ! k))) \<and>
           (\<forall>j<k. row_dist lx ly (red ! j) \<noteq> row_dist lx ly (red ! k)) \<and>
           (\<forall>j<k. \<not> (x (red ! j) = x (red ! k) \<and> y (red ! j) = y (red ! k)))"
proof -
  from update_pmf_cells [of st wham_pmf] assms(1,2) obtain a' where
    a': "update_pmf st wham_pmf = (Inr (), a')"
        "pmf_value st wham_pmf (ix, iy) = Inr (cell a' (ix, iy))"
    by blast
  from pmf_value_nearest [OF assms(3)] assms(4,5) obtain k where
    k: "k < length red" "pmf_value st wham_pmf (ix, iy) = Inr (e (red ! k))"
       "\<forall>r\<in>set red. row_dist lx ly r \<noteq> NaN \<and>
                     \<not> fl_lt (row_dist lx ly r) (row_dist lx ly (red ! k))"
       "\<forall>j<k. row_dist lx ly (red ! j) \<noteq> row_dist lx ly (red ! k)"
    by blast
  have "\<forall>j<k. \<not> (x (red ! j) = x (red ! k) \<and> y (red ! j) = y (red ! k))"
    using k(4) same_xy_same_dist by blast
  moreover have "cell a' (ix, iy) = e (red ! k)"
    using a'(2) k(2) by simp
  ultimately show ?thesis
    using a'(1) k(1,3,4) by blast
qed

text \<open>
  C2, as the code has it. A solver-output row is a candidate for a cell exactly when its
  \<open>x\<close> and \<open>y\<close> are numbers whose float64 differences from the cell's coordinate (the
  exact differences rounded to the nearest binary64 number) are, in absolute value, strictly
  below the lambda step of their axis: an open rectangle, each axis tested on its own, and no
  test of the distance. The cell that \<open>update_pmf\<close> writes depends on the candidates only:
  it is positive infinity without a candidate, the energy of a candidate otherwise, and the
  same as when the candidates are the whole solver output.
\<close>

theorem update_pmf_window:
  assumes "ix < shape0 (pmf st)" and "iy < shape1 (pmf st)"
    and "get_lambdas_for_index st (ix, iy) = (lx, ly)"
  shows "\<exists>a' b'. update_pmf st wham_pmf = (Inr (), a') \<and>
           (\<forall>r. r \<in> set (reduced st wham_pmf (ix, iy)) \<longleftrightarrow>
                r \<in> set wham_pmf \<and>
                (\<exists>a b dx dy. x r = Fin a \<and> y r = Fin b \<and>
                   rnd64 (a - lx) = Fin dx \<and> \<bar>dx\<bar> < step0 st \<and>
                   rnd64 (b - ly) = Fin dy \<and> \<bar>dy\<bar> < step1 st)) \<and>
           (if reduced st wham_pmf (ix, iy) = [] then cell a' (ix, iy) = PInf
            else \<exists>r\<in>set (reduced st wham_pmf (ix, iy)). cell a' (ix, iy) = e r) \<and>
           update_pmf st (reduced st wham_pmf (ix, iy)) = (Inr (), b') \<and>
           cell b' (ix, iy) = cell a' (ix, iy)"
proof -
  from update_pmf_cells [of st wham_pmf] assms(1,2) obtain a' where
    a': "update_pmf st wham_pmf = (Inr (), a')"
        "pmf_value st wham_pmf (ix, iy) = Inr (cell a' (ix, iy))"
    by blast
  from update_pmf_cells [of st "reduced st wham_pmf (ix, iy)"] assms(1,2) obtain b' where
    b': "update_pmf st (reduced st wham_pmf (ix, iy)) = (Inr (), b')"
        "pmf_value st (reduced st wham_pmf (ix, iy)) (ix, iy) = Inr (cell b' (ix, iy))"
    by blast
  have same: "cell b' (ix, iy) = cell a' (ix, iy)"
    using a'(2) b'(2) by (simp add: pmf_value_reduced)
  have mem: "\<forall>r. r \<in> set (reduced st wham_pmf (ix, iy)) \<longleftrightarrow>
                r \<in> set wham_pmf \<and>
                (\<exists>a b dx dy. x r = Fin a \<and> y r = Fin b \<and>
                   rnd64 (a - lx) = Fin dx \<and> \<bar>dx\<bar> < step0 st \<and>
                   rnd64 (b - ly) = Fin dy \<and> \<bar>dy\<bar> < step1 st)"
    using assms(3) by (simp add: reduced_def in_window_iff)
  have val: "if reduced st wham_pmf (ix, iy) = [] then cell a' (ix, iy) = PInf
            else \<exists>r\<in>set (reduced st wham_pmf (ix, iy)). cell a' (ix, iy) = e r"
  proof (cases "reduced st wham_pmf (ix, iy) = []")
    case True
    with pmf_value_empty [OF True] a'(2) show ?thesis by simp
  next
    case False
    with pmf_value_candidate [OF False] a'(2) show ?thesis by auto
  qed
  from a'(1) b'(1) same mem val show ?thesis by blast
qed

text \<open>
  C3. A cell with no candidate row is set to positive infinity, and that ends nothing: the scan
  completes without an exception, the grid keeps its shape, and every cell of the grid holds
  positive infinity if it has no candidate and the energy of one of its candidates otherwise.
  A cell has no candidate in particular when no row lies in the open window around its
  coordinate, the steps being binary64 numbers: rounding a difference never brings it below
  a step that it was not below.
\<close>

theorem update_pmf_unmatched:
  assumes "ix < shape0 (pmf st)" and "iy < shape1 (pmf st)"
    and "get_lambdas_for_index st (ix, iy) = (lx, ly)"
  shows "\<exists>a'. update_pmf st wham_pmf = (Inr (), a') \<and>
           shape0 a' = shape0 (pmf st) \<and> shape1 a' = shape1 (pmf st) \<and>
           (\<forall>jx<shape0 (pmf st). \<forall>jy<shape1 (pmf st).
              if reduced st wham_pmf (jx, jy) = [] then cell a' (jx, jy) = PInf
              else \<exists>r\<in>set (reduced st wham_pmf (jx, jy)). cell a' (jx, jy) = e r) \<and>
           (reduced st wham_pmf (ix, iy) = [] \<longrightarrow> cell a' (ix, iy) = PInf) \<and>
           (rnd64 (step0 st) = Fin (step0 st) \<and> rnd64 (step1 st) = Fin (step1 st) \<and>
            (\<forall>r\<in>set wham_pmf.
               \<not> (\<exists>a b. x r = Fin a \<and> y r = Fin b \<and>
                     \<bar>a - lx\<bar> < step0 st \<and> \<bar>b - ly\<bar> < step1 st))
            \<longrightarrow> cell a' (ix, iy) = PInf)"
proof -
  from update_pmf_cells [of st wham_pmf] obtain a' where
    a': "update_pmf st wham_pmf = (Inr (), a')"
        "shape0 a' = shape0 (pmf st)" "shape1 a' = shape1 (pmf st)"
        "\<forall>jx<shape0 (pmf st). \<forall>jy<shape1 (pmf st).
           pmf_value st wham_pmf (jx, jy) = Inr (cell a' (jx, jy))"
    by blast
  have each: "if reduced st wham_pmf (jx, jy) = [] then cell a' (jx, jy) = PInf
              else \<exists>r\<in>set (reduced st wham_pmf (jx, jy)). cell a' (jx, jy) = e r"
    if "jx < shape0 (pmf st)" "jy < shape1 (pmf st)" for jx jy
  proof (cases "reduced st wham_pmf (jx, jy) = []")
    case True
    with pmf_value_empty [OF True] a'(4) that show ?thesis by simp
  next
    case False
    with pmf_value_candidate [OF False] a'(4) that show ?thesis by auto
  qed
  have none: "cell a' (ix, iy) = PInf" if "reduced st wham_pmf (ix, iy) = []"
    using each [OF assms(1,2)] that by simp
  have empty: "reduced st wham_pmf (ix, iy) = []"
    if s: "rnd64 (step0 st) = Fin (step0 st)" "rnd64 (step1 st) = Fin (step1 st)"
      and out: "\<forall>r\<in>set wham_pmf.
         \<not> (\<exists>a b. x r = Fin a \<and> y r = Fin b \<and> \<bar>a - lx\<bar> < step0 st \<and> \<bar>b - ly\<bar> < step1 st)"
  proof -
    have "\<not> in_window lx ly (step0 st) (step1 st) r" if "r \<in> set wham_pmf" for r
      using in_window_outside [OF s] out that by blast
    then show ?thesis
      using assms(3) by (simp add: reduced_def filter_empty_conv)
  qed
  from a'(1,2,3) each none empty show ?thesis by blast
qed

subsection \<open>The concrete runs, evaluated\<close>

text \<open>Numbers that rounding leaves as they are.\<close>

lemma rnd64_0: "rnd64 0 = Fin 0"
  by (simp add: rnd64_def)

lemma rnd64_quarter: "rnd64 (1 / 4) = Fin (1 / 4)" "rnd64 (- (1 / 4)) = Fin (- (1 / 4))"
  by (rule rnd64_exact [where m = "2 ^ 52" and j = "- 54"]; simp)+

lemma rnd64_half: "rnd64 (1 / 2) = Fin (1 / 2)" "rnd64 (- (1 / 2)) = Fin (- (1 / 2))"
  by (rule rnd64_exact [where m = "2 ^ 52" and j = "- 53"]; simp)+

lemma rnd64_3_8: "rnd64 (3 / 8) = Fin (3 / 8)" "rnd64 (- (3 / 8)) = Fin (- (3 / 8))"
  by (rule rnd64_exact [where m = "3 * 2 ^ 51" and j = "- 54"]; simp)+

lemma rnd64_1_16: "rnd64 (1 / 16) = Fin (1 / 16)"
  by (rule rnd64_exact [where m = "2 ^ 52" and j = "- 56"]; simp)

lemma rnd64_9_64: "rnd64 (9 / 64) = Fin (9 / 64)"
  by (rule rnd64_exact [where m = "9 * 2 ^ 49" and j = "- 55"]; simp)

lemma rnd64_1: "rnd64 1 = Fin 1" "rnd64 (- 1) = Fin (- 1)"
  by (rule rnd64_exact [where m = "2 ^ 52" and j = "- 52"]; simp)+

lemma rnd64_2: "rnd64 2 = Fin 2"
  by (rule rnd64_exact [where m = "2 ^ 52" and j = "- 51"]; simp)

lemma rnd64_3_2: "rnd64 (3 / 2) = Fin (3 / 2)"
  by (rule rnd64_exact [where m = "3 * 2 ^ 51" and j = "- 52"]; simp)

lemma rnd64_pow_30:
  "rnd64 (1 / 1073741824) = Fin (1 / 1073741824)"
  "rnd64 (- (1 / 1073741824)) = Fin (- (1 / 1073741824))"
  by (rule rnd64_exact [where m = "2 ^ 52" and j = "- 82"]; simp)+

lemma rnd64_pow_60:
  "rnd64 (1 / 1152921504606846976) = Fin (1 / 1152921504606846976)"
  by (rule rnd64_exact [where m = "2 ^ 52" and j = "- 112"]; simp)

text \<open>Numbers that rounding moves.\<close>

lemma rnd64_absorbed:
  "rnd64 (72057594037927937 / 1152921504606846976) = Fin (1 / 16)"
  by (rule rnd64_eval [where k = "- 4" and m = "2 ^ 52"]) (simp_all add: round_even_def)

lemma rnd64_edge:
  "rnd64 (1 - (- (2 powi (- 53) + 2 powi (- 60)))) = Fin (1 + 2 powi (- 52))"
  by (rule rnd64_eval [where k = 0 and m = "2 ^ 52 + 1"]) (simp_all add: round_even_def)

lemma sqrt_ex: "sqrt (1 / 16) = 1 / 4" "sqrt (9 / 64) = 3 / 8"
  by (rule real_sqrt_unique; simp add: power2_eq_square)+

lemmas rnd64_ex =
  rnd64_0 rnd64_quarter rnd64_half rnd64_3_8 rnd64_1_16 rnd64_9_64 rnd64_1 rnd64_2 rnd64_3_2
  rnd64_pow_30 rnd64_pow_60 rnd64_absorbed sqrt_ex

lemma runner_ex_grid:
  "shape0 (pmf runner_ex) = 3" "shape1 (pmf runner_ex) = 3"
  "step0 runner_ex = 1 / 2" "step1 runner_ex = 1 / 2"
  "get_lambdas_for_index runner_ex (0, 0) = (0, 0)"
  "get_lambdas_for_index runner_ex (2, 2) = (1, 1)"
  by (simp_all add: runner_ex_def lambdas_ex_def step0_def step1_def)

lemma reduced_ex_22: "reduced runner_ex rows_ex (2, 2) = rows_ex"
  by (simp add: reduced_def runner_ex_grid rows_ex_def in_window_def fl_sub_def rnd64_ex)

lemma reduced_corner_22: "reduced runner_ex rows_corner (2, 2) = rows_corner"
  by (simp add: reduced_def runner_ex_grid rows_corner_def in_window_def fl_sub_def rnd64_ex)

lemma reduced_tie_00: "reduced runner_ex rows_tie (0, 0) = rows_tie"
  by (simp add: reduced_def runner_ex_grid rows_tie_def in_window_def fl_sub_def rnd64_ex)

lemma row_dist_ex:
  "row_dist 1 1 (rows_ex ! 0) = Fin (3 / 8)"
  "row_dist 1 1 (rows_ex ! 1) = Fin (1 / 4)"
  "row_dist 1 1 (rows_ex ! 2) = Fin (1 / 4)"
  "row_dist 1 1 (rows_ex ! 3) = Fin (1 / 4)"
  by (simp_all add: rows_ex_def row_dist_def norm2_def fl_sub_def rnd64_ex)

lemma row_dist_tie:
  "row_dist 0 0 (rows_tie ! 0) = Fin (1 / 4)"
  "row_dist 0 0 (rows_tie ! 1) = Fin (1 / 4)"
  by (simp_all add: rows_tie_def row_dist_def norm2_def fl_sub_def rnd64_ex)

theorem update_pmf_nearest_row_witness:
  "2 < shape0 (pmf runner_ex) \<and> 2 < shape1 (pmf runner_ex) \<and>
   get_lambdas_for_index runner_ex (2, 2) = (1, 1) \<and>
   reduced runner_ex rows_ex (2, 2) = rows_ex \<and> rows_ex \<noteq> [] \<and>
   (\<exists>a'. update_pmf runner_ex rows_ex = (Inr (), a') \<and> cell a' (2, 2) = Fin (- 2))"
proof -
  have h1: "2 < shape0 (pmf runner_ex)" and h2: "2 < shape1 (pmf runner_ex)"
    and h3: "get_lambdas_for_index runner_ex (2, 2) = (1, 1)"
    by (simp_all add: runner_ex_grid)
  have h4: "rows_ex = reduced runner_ex rows_ex (2, 2)"
    by (simp add: reduced_ex_22)
  have h5: "rows_ex \<noteq> []" by (simp add: rows_ex_def)
  from update_pmf_nearest_row [OF h1 h2 h3 h4 h5] obtain a' k where
    a': "update_pmf runner_ex rows_ex = (Inr (), a')" and k: "k < length rows_ex"
    and v: "cell a' (2, 2) = e (rows_ex ! k)"
    and least: "\<forall>r\<in>set rows_ex. row_dist 1 1 r \<noteq> NaN \<and>
                  \<not> fl_lt (row_dist 1 1 r) (row_dist 1 1 (rows_ex ! k))"
    and first: "\<forall>j<k. row_dist 1 1 (rows_ex ! j) \<noteq> row_dist 1 1 (rows_ex ! k)"
    by blast
  have len: "length rows_ex = 4" by (simp add: rows_ex_def)
  have "rows_ex ! 1 \<in> set rows_ex" using len by simp
  with least have le: "\<not> fl_lt (row_dist 1 1 (rows_ex ! 1)) (row_dist 1 1 (rows_ex ! k))"
    by blast
  have k0: "k \<noteq> 0"
  proof
    assume "k = 0"
    with le have "\<not> fl_lt (row_dist 1 1 (rows_ex ! 1)) (row_dist 1 1 (rows_ex ! 0))" by simp
    then show False unfolding row_dist_ex by simp
  qed
  have k2: "k \<noteq> 2"
  proof
    assume "k = 2"
    with first have "row_dist 1 1 (rows_ex ! 1) \<noteq> row_dist 1 1 (rows_ex ! 2)" by simp
    then show False unfolding row_dist_ex by simp
  qed
  have k3: "k \<noteq> 3"
  proof
    assume "k = 3"
    with first have "row_dist 1 1 (rows_ex ! 1) \<noteq> row_dist 1 1 (rows_ex ! 3)" by simp
    then show False unfolding row_dist_ex by simp
  qed
  from k len k0 k2 k3 have "k = 1" by arith
  then have "cell a' (2, 2) = Fin (- 2)" using v by (simp add: rows_ex_def)
  with a' h1 h2 h3 h4 h5 show ?thesis by simp
qed

text \<open>
  The claim as the spec words it fails where rounding makes a tie: both rows of \<open>rows_tie\<close>
  are candidates of index \<open>(0, 0)\<close>, the second is strictly nearer to the coordinate, and the
  cell gets the energy of the first, the two computed distances being the same float.
\<close>

theorem update_pmf_nearest_row_rounding:
  "reduced runner_ex rows_tie (0, 0) = rows_tie \<and>
   euclid 0 0 (rows_tie ! 1) < euclid 0 0 (rows_tie ! 0) \<and>
   e (rows_tie ! 0) = Fin 1 \<and> e (rows_tie ! 1) = Fin 2 \<and>
   (\<exists>a'. update_pmf runner_ex rows_tie = (Inr (), a') \<and> cell a' (0, 0) = Fin 1)"
proof -
  have nearer: "euclid 0 0 (rows_tie ! 1) < euclid 0 0 (rows_tie ! 0)"
    by (simp add: euclid_def rows_tie_def)
  have en: "e (rows_tie ! 0) = Fin 1" "e (rows_tie ! 1) = Fin 2"
    by (simp_all add: rows_tie_def)
  have dist: "map (row_dist 0 0) rows_tie = [Fin (1 / 4), Fin (1 / 4)]"
    using row_dist_tie by (simp add: rows_tie_def)
  have val: "pmf_value runner_ex rows_tie (0, 0) = Inr (Fin 1)"
    unfolding pmf_value_def
    by (simp add: runner_ex_grid reduced_tie_00 dist series_min_def)
      (simp add: rows_tie_def row_dist_tie [unfolded rows_tie_def, simplified] fl_eq_def
        iloc0_def)
  from update_pmf_cells [of runner_ex rows_tie] obtain a' where
    "update_pmf runner_ex rows_tie = (Inr (), a')"
    "\<forall>ix<shape0 (pmf runner_ex). \<forall>iy<shape1 (pmf runner_ex).
       pmf_value runner_ex rows_tie (ix, iy) = Inr (cell a' (ix, iy))"
    by blast
  moreover have "0 < shape0 (pmf runner_ex)" "0 < shape1 (pmf runner_ex)"
    by (simp_all add: runner_ex_grid)
  ultimately have "update_pmf runner_ex rows_tie = (Inr (), a') \<and> cell a' (0, 0) = Fin 1"
    using val by auto
  with nearer en reduced_tie_00 show ?thesis by blast
qed

theorem update_pmf_window_witness:
  "2 < shape0 (pmf runner_ex) \<and> 2 < shape1 (pmf runner_ex) \<and>
   get_lambdas_for_index runner_ex (2, 2) = (1, 1) \<and>
   step0 runner_ex < euclid 1 1 \<lparr>x = Fin (11 / 8), y = Fin (11 / 8), e = Fin 10, pro = Fin 0\<rparr> \<and>
   (\<exists>a'. update_pmf runner_ex rows_corner = (Inr (), a') \<and> cell a' (2, 2) = Fin 10)"
proof -
  have h1: "2 < shape0 (pmf runner_ex)" and h2: "2 < shape1 (pmf runner_ex)"
    and h3: "get_lambdas_for_index runner_ex (2, 2) = (1, 1)"
    by (simp_all add: runner_ex_grid)
  have far: "step0 runner_ex
      < euclid 1 1 \<lparr>x = Fin (11 / 8), y = Fin (11 / 8), e = Fin 10, pro = Fin 0\<rparr>"
  proof -
    have "(1 / 2)\<^sup>2 < (9 / 32 :: real)" by (simp add: power2_eq_square)
    then have "1 / 2 < sqrt (9 / 32)" by (rule real_less_rsqrt)
    then show ?thesis by (simp add: euclid_def runner_ex_grid)
  qed
  from update_pmf_window [OF h1 h2 h3, of rows_corner] obtain a' where
    a': "update_pmf runner_ex rows_corner = (Inr (), a')"
    and val: "if reduced runner_ex rows_corner (2, 2) = [] then cell a' (2, 2) = PInf
       else \<exists>r\<in>set (reduced runner_ex rows_corner (2, 2)). cell a' (2, 2) = e r"
    by blast
  from val have "cell a' (2, 2) = Fin 10"
    unfolding reduced_corner_22 by (simp add: rows_corner_def)
  with a' h1 h2 h3 far show ?thesis by blast
qed

text \<open>
  The claim as the spec words it fails at the edge of the window: the row of \<open>rows_edge\<close>
  differs from the coordinate of the one cell of \<open>runner_edge\<close> by less than the step on
  both axes, and is no candidate, the float difference of the \<open>x\<close> values being the step.
\<close>

theorem update_pmf_window_rounding:
  "get_lambdas_for_index runner_edge (0, 0) = (- (2 powi (- 53) + 2 powi (- 60)), 0) \<and>
   x (rows_edge ! 0) = Fin 1 \<and> y (rows_edge ! 0) = Fin 0 \<and>
   \<bar>1 - (- (2 powi (- 53) + 2 powi (- 60)))\<bar> < step0 runner_edge \<and>
   \<bar>0 - 0\<bar> < step1 runner_edge \<and>
   reduced runner_edge rows_edge (0, 0) = [] \<and>
   (\<exists>a'. update_pmf runner_edge rows_edge = (Inr (), a') \<and> cell a' (0, 0) = PInf)"
proof -
  have lam: "get_lambdas_for_index runner_edge (0, 0) = (- (2 powi (- 53) + 2 powi (- 60)), 0)"
    and s: "step0 runner_edge = 1 + 2 powi (- 52)" "step1 runner_edge = 1"
    and shape: "0 < shape0 (pmf runner_edge)" "0 < shape1 (pmf runner_edge)"
    by (simp_all add: runner_edge_def step0_def step1_def)
  have row: "x (rows_edge ! 0) = Fin 1" "y (rows_edge ! 0) = Fin 0"
    by (simp_all add: rows_edge_def)
  have inside: "\<bar>1 - (- (2 powi (- 53) + 2 powi (- 60)))\<bar> < step0 runner_edge"
    "\<bar>0 - 0\<bar> < step1 runner_edge"
    unfolding s by simp_all
  have "\<not> in_window (- (2 powi (- 53) + 2 powi (- 60))) 0 (step0 runner_edge)
      (step1 runner_edge) (rows_edge ! 0)"
  proof
    assume "in_window (- (2 powi (- 53) + 2 powi (- 60))) 0 (step0 runner_edge)
      (step1 runner_edge) (rows_edge ! 0)"
    then obtain a dx where "x (rows_edge ! 0) = Fin a"
      "rnd64 (a - (- (2 powi (- 53) + 2 powi (- 60)))) = Fin dx" "\<bar>dx\<bar> < step0 runner_edge"
      unfolding in_window_iff by blast
    with row(1) rnd64_edge show False unfolding s by simp
  qed
  then have empty: "reduced runner_edge rows_edge (0, 0) = []"
    unfolding reduced_def lam by (simp add: rows_edge_def)
  from update_pmf_cells [of runner_edge rows_edge] shape obtain a' where
    "update_pmf runner_edge rows_edge = (Inr (), a')"
    "pmf_value runner_edge rows_edge (0, 0) = Inr (cell a' (0, 0))"
    by blast
  with pmf_value_empty [OF empty]
  have "update_pmf runner_edge rows_edge = (Inr (), a') \<and> cell a' (0, 0) = PInf"
    by simp
  with lam row inside empty show ?thesis by blast
qed

theorem update_pmf_unmatched_witness:
  "0 < shape0 (pmf runner_ex) \<and> 0 < shape1 (pmf runner_ex) \<and>
   get_lambdas_for_index runner_ex (0, 0) = (0, 0) \<and>
   rnd64 (step0 runner_ex) = Fin (step0 runner_ex) \<and>
   rnd64 (step1 runner_ex) = Fin (step1 runner_ex) \<and>
   reduced runner_ex rows_ex (0, 0) = [] \<and>
   (\<exists>a'. update_pmf runner_ex rows_ex = (Inr (), a') \<and> cell a' (0, 0) = PInf \<and>
         shape0 a' = 3 \<and> shape1 a' = 3 \<and>
         cell a' (2, 2) \<in> {Fin 10, Fin (- 2), Fin 4, Fin 7})"
proof -
  have h1: "0 < shape0 (pmf runner_ex)" and h2: "0 < shape1 (pmf runner_ex)"
    and h3: "get_lambdas_for_index runner_ex (0, 0) = (0, 0)"
    by (simp_all add: runner_ex_grid)
  have s: "rnd64 (step0 runner_ex) = Fin (step0 runner_ex)"
    "rnd64 (step1 runner_ex) = Fin (step1 runner_ex)"
    by (simp_all add: runner_ex_grid rnd64_half)
  have out: "\<forall>r\<in>set rows_ex.
      \<not> (\<exists>a b. x r = Fin a \<and> y r = Fin b \<and>
            \<bar>a - 0\<bar> < step0 runner_ex \<and> \<bar>b - 0\<bar> < step1 runner_ex)"
    by (simp add: rows_ex_def runner_ex_grid)
  from update_pmf_unmatched [OF h1 h2 h3, of rows_ex] obtain a' where
    a': "update_pmf runner_ex rows_ex = (Inr (), a')"
      "shape0 a' = shape0 (pmf runner_ex)" "shape1 a' = shape1 (pmf runner_ex)"
    and rest: "\<forall>jx<shape0 (pmf runner_ex). \<forall>jy<shape1 (pmf runner_ex).
       if reduced runner_ex rows_ex (jx, jy) = [] then cell a' (jx, jy) = PInf
       else \<exists>r\<in>set (reduced runner_ex rows_ex (jx, jy)). cell a' (jx, jy) = e r"
    and exact: "rnd64 (step0 runner_ex) = Fin (step0 runner_ex) \<and>
        rnd64 (step1 runner_ex) = Fin (step1 runner_ex) \<and>
        (\<forall>r\<in>set rows_ex.
           \<not> (\<exists>a b. x r = Fin a \<and> y r = Fin b \<and>
                 \<bar>a - 0\<bar> < step0 runner_ex \<and> \<bar>b - 0\<bar> < step1 runner_ex))
        \<longrightarrow> cell a' (0, 0) = PInf"
    by blast
  from exact s out have inf: "cell a' (0, 0) = PInf" by blast
  have empty: "reduced runner_ex rows_ex (0, 0) = []"
  proof -
    have "\<not> in_window 0 0 (step0 runner_ex) (step1 runner_ex) r" if "r \<in> set rows_ex" for r
      using in_window_outside [OF s] out that by blast
    then show ?thesis
      unfolding reduced_def h3 by (simp add: filter_empty_conv)
  qed
  have "2 < shape0 (pmf runner_ex)" "2 < shape1 (pmf runner_ex)"
    by (simp_all add: runner_ex_grid)
  with rest have "if reduced runner_ex rows_ex (2, 2) = [] then cell a' (2, 2) = PInf
       else \<exists>r\<in>set (reduced runner_ex rows_ex (2, 2)). cell a' (2, 2) = e r"
    by blast
  moreover have "rows_ex \<noteq> []" by (simp add: rows_ex_def)
  ultimately have "\<exists>r\<in>set rows_ex. cell a' (2, 2) = e r"
    unfolding reduced_ex_22 by simp
  then have "cell a' (2, 2) \<in> {Fin 10, Fin (- 2), Fin 4, Fin 7}"
    by (auto simp: rows_ex_def)
  with a' inf empty h1 h2 h3 s show ?thesis by (simp add: runner_ex_grid)
qed

section \<open>Properties of \<open>get_wham_borders\<close>\<close>

lemma np_nonzero_fst: "set (fst (np_nonzero a)) = fst ` nonzero_cells a"
  by (force simp: np_nonzero_def nonzero_cells_def Let_def)

lemma np_nonzero_snd: "set (snd (np_nonzero a)) = snd ` nonzero_cells a"
  by (force simp: np_nonzero_def nonzero_cells_def Let_def)

lemma finite_nonzero_cells: "finite (nonzero_cells a)"
proof -
  have "nonzero_cells a \<subseteq> {..<shape0 a} \<times> {..<shape1 a}"
    by (auto simp: nonzero_cells_def)
  then show ?thesis by (rule finite_subset) simp
qed

lemma amin_Min:
  assumes "xs \<noteq> []"
  shows "amin xs = Inr (Min (set xs))"
proof (cases xs)
  case Nil
  with assms show ?thesis by simp
next
  case (Cons v vs)
  have "fold min vs v = Min (set (v # vs))" by (rule Min.set_eq_fold [symmetric])
  then show ?thesis unfolding Cons amin_def by (simp only: list.case)
qed

lemma amax_Max:
  assumes "xs \<noteq> []"
  shows "amax xs = Inr (Max (set xs))"
proof (cases xs)
  case Nil
  with assms show ?thesis by simp
next
  case (Cons v vs)
  have "fold max vs v = Max (set (v # vs))" by (rule Max.set_eq_fold [symmetric])
  then show ?thesis unfolding Cons amax_def by (simp only: list.case)
qed

lemma get_wham_borders_value:
  assumes ne: "nonzero_cells (sample_list st) \<noteq> {}"
  shows "get_wham_borders st =
     Inr (fl_sub (Fin (fst (get_lambdas_for_index st
                     (Min (fst ` nonzero_cells (sample_list st)),
                      Min (snd ` nonzero_cells (sample_list st))))))
            (fl_mul (Fin 2) (Fin (step0 st))),
          fl_sub (Fin (snd (get_lambdas_for_index st
                     (Min (fst ` nonzero_cells (sample_list st)),
                      Min (snd ` nonzero_cells (sample_list st))))))
            (fl_mul (Fin 2) (Fin (step1 st))),
          fl_add (Fin (fst (get_lambdas_for_index st
                     (Max (fst ` nonzero_cells (sample_list st)),
                      Max (snd ` nonzero_cells (sample_list st))))))
            (fl_mul (Fin 2) (Fin (step0 st))),
          fl_add (Fin (snd (get_lambdas_for_index st
                     (Max (fst ` nonzero_cells (sample_list st)),
                      Max (snd ` nonzero_cells (sample_list st))))))
            (fl_mul (Fin 2) (Fin (step1 st))))"
proof -
  have 1: "fst (np_nonzero (sample_list st)) \<noteq> []"
    using ne np_nonzero_fst [of "sample_list st"] by auto
  have 2: "snd (np_nonzero (sample_list st)) \<noteq> []"
    using ne np_nonzero_snd [of "sample_list st"] by auto
  show ?thesis
    unfolding get_wham_borders_def Let_def
    by (simp add: amin_Min [OF 1] amin_Min [OF 2] amax_Max [OF 1] amax_Max [OF 2]
        np_nonzero_fst np_nonzero_snd split: prod.splits)
qed

lemma get_wham_borders_empty:
  "nonzero_cells (sample_list st) = {} \<Longrightarrow> get_wham_borders st = Inl ValueError"
proof -
  assume "nonzero_cells (sample_list st) = {}"
  then have "fst (np_nonzero (sample_list st)) = []"
    using np_nonzero_fst [of "sample_list st"] by simp
  then show ?thesis
    by (simp add: get_wham_borders_def Let_def amin_def)
qed

lemma twice_nonneg:
  assumes "0 \<le> s"
  shows "fl_mul (Fin 2) (Fin s) = PInf \<or> (\<exists>t. fl_mul (Fin 2) (Fin s) = Fin t \<and> 0 \<le> t)"
proof -
  have "0 \<le> 2 * s" using assms by simp
  from rnd64_nonneg [OF this] show ?thesis by simp
qed

lemma border_low:
  assumes "0 \<le> s" and "rnd64 c = Fin c" and "c0 \<le> c"
  shows "fl_le (fl_sub (Fin c0) (fl_mul (Fin 2) (Fin s))) (Fin c)"
proof -
  from twice_nonneg [OF assms(1)] show ?thesis
  proof
    assume "fl_mul (Fin 2) (Fin s) = PInf"
    then show ?thesis by (simp add: fl_sub_def fl_le_def)
  next
    assume "\<exists>t. fl_mul (Fin 2) (Fin s) = Fin t \<and> 0 \<le> t"
    then obtain t where t: "fl_mul (Fin 2) (Fin s) = Fin t" "0 \<le> t" by blast
    then have "c0 + - t \<le> c" using assms(3) by simp
    moreover from t(1) have "rnd64 (2 * s) = Fin t" by simp
    ultimately show ?thesis
      using rnd64_mono [of "c0 + - t" c] by (simp add: fl_sub_def assms(2))
  qed
qed

lemma border_high:
  assumes "0 \<le> s" and "rnd64 c = Fin c" and "c \<le> c1"
  shows "fl_le (Fin c) (fl_add (Fin c1) (fl_mul (Fin 2) (Fin s)))"
proof -
  from twice_nonneg [OF assms(1)] show ?thesis
  proof
    assume "fl_mul (Fin 2) (Fin s) = PInf"
    then show ?thesis by (simp add: fl_le_def)
  next
    assume "\<exists>t. fl_mul (Fin 2) (Fin s) = Fin t \<and> 0 \<le> t"
    then obtain t where t: "fl_mul (Fin 2) (Fin s) = Fin t" "0 \<le> t" by blast
    then have "c \<le> c1 + t" using assms(3) by simp
    moreover from t(1) have "rnd64 (2 * s) = Fin t" by simp
    ultimately show ?thesis
      using rnd64_mono [of c "c1 + t"] by (simp add: assms(2))
  qed
qed

text \<open>
  C4, as the code has it. For a Sample Grid with a nonzero cell, and an index-to-coordinate
  mapping that acts per axis (\<open>cx\<close> on the first index, \<open>cy\<close> on the second),
  \<open>get_wham_borders\<close> returns the coordinates of the least and greatest nonzero indices of
  each axis, moved outward by twice the lambda step of the axis in float64 arithmetic: the
  product and the difference or sum each rounded to the nearest binary64 number. For steps
  that are not negative, monotone \<open>cx\<close>, \<open>cy\<close> and coordinates that are binary64 numbers,
  every nonzero cell's coordinate is then inside the rectangle, its borders included, and the
  corners moved are those of the tightest box around the coordinates. When none of the
  operations rounds, the borders are the exact numbers
  \<open>cx min - 2 step, cy min - 2 step, cx max + 2 step, cy max + 2 step\<close>, and for positive
  steps every nonzero cell's coordinate is strictly inside.
\<close>

theorem get_wham_borders_rectangle:
  assumes nz: "nz = nonzero_cells (sample_list st)" and ne: "nz \<noteq> {}"
    and sep: "\<forall>i j. get_lambdas_for_index st (i, j) = (cx i, cy j)"
    and b0: "b0 = fl_sub (Fin (cx (Min (fst ` nz)))) (fl_mul (Fin 2) (Fin (step0 st)))"
    and b1: "b1 = fl_sub (Fin (cy (Min (snd ` nz)))) (fl_mul (Fin 2) (Fin (step1 st)))"
    and b2: "b2 = fl_add (Fin (cx (Max (fst ` nz)))) (fl_mul (Fin 2) (Fin (step0 st)))"
    and b3: "b3 = fl_add (Fin (cy (Max (snd ` nz)))) (fl_mul (Fin 2) (Fin (step1 st)))"
  shows "get_wham_borders st = Inr (b0, b1, b2, b3) \<and>
         (0 \<le> step0 st \<and> 0 \<le> step1 st \<and> mono cx \<and> mono cy \<and>
          (\<forall>(i, j)\<in>nz. rnd64 (cx i) = Fin (cx i) \<and> rnd64 (cy j) = Fin (cy j)) \<longrightarrow>
            (\<forall>(i, j)\<in>nz.
               fl_le b0 (Fin (cx i)) \<and> fl_le (Fin (cx i)) b2 \<and>
               fl_le b1 (Fin (cy j)) \<and> fl_le (Fin (cy j)) b3) \<and>
            cx (Min (fst ` nz)) = Min (cx ` fst ` nz) \<and>
            cy (Min (snd ` nz)) = Min (cy ` snd ` nz) \<and>
            cx (Max (fst ` nz)) = Max (cx ` fst ` nz) \<and>
            cy (Max (snd ` nz)) = Max (cy ` snd ` nz)) \<and>
         (rnd64 (2 * step0 st) = Fin (2 * step0 st) \<and>
          rnd64 (2 * step1 st) = Fin (2 * step1 st) \<and>
          rnd64 (cx (Min (fst ` nz)) - 2 * step0 st) = Fin (cx (Min (fst ` nz)) - 2 * step0 st) \<and>
          rnd64 (cy (Min (snd ` nz)) - 2 * step1 st) = Fin (cy (Min (snd ` nz)) - 2 * step1 st) \<and>
          rnd64 (cx (Max (fst ` nz)) + 2 * step0 st) = Fin (cx (Max (fst ` nz)) + 2 * step0 st) \<and>
          rnd64 (cy (Max (snd ` nz)) + 2 * step1 st) = Fin (cy (Max (snd ` nz)) + 2 * step1 st)
          \<longrightarrow>
            get_wham_borders st =
              Inr (Fin (cx (Min (fst ` nz)) - 2 * step0 st),
                   Fin (cy (Min (snd ` nz)) - 2 * step1 st),
                   Fin (cx (Max (fst ` nz)) + 2 * step0 st),
                   Fin (cy (Max (snd ` nz)) + 2 * step1 st)) \<and>
            (0 < step0 st \<and> 0 < step1 st \<and> mono cx \<and> mono cy \<longrightarrow>
               (\<forall>(i, j)\<in>nz.
                  cx (Min (fst ` nz)) - 2 * step0 st < cx i \<and>
                  cx i < cx (Max (fst ` nz)) + 2 * step0 st \<and>
                  cy (Min (snd ` nz)) - 2 * step1 st < cy j \<and>
                  cy j < cy (Max (snd ` nz)) + 2 * step1 st)))"
proof -
  have fin: "finite (fst ` nz)" "finite (snd ` nz)"
    unfolding nz by (simp_all add: finite_nonzero_cells)
  have nemp: "fst ` nz \<noteq> {}" "snd ` nz \<noteq> {}"
    using ne by simp_all
  have res: "get_wham_borders st = Inr (b0, b1, b2, b3)"
    using get_wham_borders_value [of st] ne sep unfolding nz b0 b1 b2 b3 by simp
  have range: "Min (fst ` nz) \<le> i \<and> i \<le> Max (fst ` nz) \<and>
      Min (snd ` nz) \<le> j \<and> j \<le> Max (snd ` nz)" if "(i, j) \<in> nz" for i j
  proof -
    have "i \<in> fst ` nz" "j \<in> snd ` nz" using that by force+
    then show ?thesis using fin by simp
  qed
  have inside: "fl_le b0 (Fin (cx i)) \<and> fl_le (Fin (cx i)) b2 \<and>
      fl_le b1 (Fin (cy j)) \<and> fl_le (Fin (cy j)) b3"
    if pos: "0 \<le> step0 st" "0 \<le> step1 st" and m: "mono cx" "mono cy"
      and rep: "\<forall>(i, j)\<in>nz. rnd64 (cx i) = Fin (cx i) \<and> rnd64 (cy j) = Fin (cy j)"
      and ij: "(i, j) \<in> nz"
    for i j
  proof -
    from range [OF ij] m
    have c: "cx (Min (fst ` nz)) \<le> cx i" "cx i \<le> cx (Max (fst ` nz))"
      "cy (Min (snd ` nz)) \<le> cy j" "cy j \<le> cy (Max (snd ` nz))"
      by (simp_all add: monoD)
    from rep ij have r: "rnd64 (cx i) = Fin (cx i)" "rnd64 (cy j) = Fin (cy j)" by auto
    show ?thesis
      unfolding b0 b1 b2 b3
      using border_low [OF pos(1) r(1) c(1)] border_high [OF pos(1) r(1) c(2)]
        border_low [OF pos(2) r(2) c(3)] border_high [OF pos(2) r(2) c(4)]
      by simp
  qed
  have tight: "cx (Min (fst ` nz)) = Min (cx ` fst ` nz) \<and>
            cy (Min (snd ` nz)) = Min (cy ` snd ` nz) \<and>
            cx (Max (fst ` nz)) = Max (cx ` fst ` nz) \<and>
            cy (Max (snd ` nz)) = Max (cy ` snd ` nz)"
    if "mono cx" "mono cy"
    using that fin nemp by (simp add: mono_Min_commute mono_Max_commute)
  have exact: "get_wham_borders st =
              Inr (Fin (cx (Min (fst ` nz)) - 2 * step0 st),
                   Fin (cy (Min (snd ` nz)) - 2 * step1 st),
                   Fin (cx (Max (fst ` nz)) + 2 * step0 st),
                   Fin (cy (Max (snd ` nz)) + 2 * step1 st))"
    if "rnd64 (2 * step0 st) = Fin (2 * step0 st)"
      "rnd64 (2 * step1 st) = Fin (2 * step1 st)"
      "rnd64 (cx (Min (fst ` nz)) - 2 * step0 st) = Fin (cx (Min (fst ` nz)) - 2 * step0 st)"
      "rnd64 (cy (Min (snd ` nz)) - 2 * step1 st) = Fin (cy (Min (snd ` nz)) - 2 * step1 st)"
      "rnd64 (cx (Max (fst ` nz)) + 2 * step0 st) = Fin (cx (Max (fst ` nz)) + 2 * step0 st)"
      "rnd64 (cy (Max (snd ` nz)) + 2 * step1 st) = Fin (cy (Max (snd ` nz)) + 2 * step1 st)"
    unfolding res b0 b1 b2 b3 using that by (simp add: fl_sub_def)
  have strict: "cx (Min (fst ` nz)) - 2 * step0 st < cx i \<and>
                  cx i < cx (Max (fst ` nz)) + 2 * step0 st \<and>
                  cy (Min (snd ` nz)) - 2 * step1 st < cy j \<and>
                  cy j < cy (Max (snd ` nz)) + 2 * step1 st"
    if pos: "0 < step0 st" "0 < step1 st" and m: "mono cx" "mono cy" and ij: "(i, j) \<in> nz"
    for i j
  proof -
    from range [OF ij] m
    have "cx (Min (fst ` nz)) \<le> cx i" "cx i \<le> cx (Max (fst ` nz))"
      "cy (Min (snd ` nz)) \<le> cy j" "cy j \<le> cy (Max (snd ` nz))"
      by (simp_all add: monoD)
    with pos show ?thesis by linarith
  qed
  from res inside tight exact strict show ?thesis by blast
qed

lemma nonzero_cells_ex: "nonzero_cells (sample_list runner_ex) = {(1, 1)}"
  by (auto simp: nonzero_cells_def runner_ex_def split: if_splits)

lemma nonzero_cells_two: "nonzero_cells (sample_list runner_two) = {(0, 1), (2, 0)}"
  by (auto simp: nonzero_cells_def runner_two_def split: if_splits)

lemma runner_two_grid:
  "get_lambdas_for_index runner_two (i, j) = (real i / 2, real j / 2)"
  "step0 runner_two = 1 / 2" "step1 runner_two = 1 / 2"
  by (simp_all add: runner_two_def runner_ex_def lambdas_ex_def step0_def step1_def)

theorem get_wham_borders_rectangle_witness:
  "nonzero_cells (sample_list runner_two) = {(0, 1), (2, 0)} \<and>
   (\<forall>i j. get_lambdas_for_index runner_two (i, j) = (real i / 2, real j / 2)) \<and>
   0 < step0 runner_two \<and> 0 < step1 runner_two \<and> mono (\<lambda>i. real i / 2) \<and>
   rnd64 (real 0 / 2) = Fin (real 0 / 2) \<and> rnd64 (real 1 / 2) = Fin (real 1 / 2) \<and>
   rnd64 (real 2 / 2) = Fin (real 2 / 2) \<and>
   get_wham_borders runner_two = Inr (Fin (- 1), Fin (- 1), Fin 2, Fin (3 / 2)) \<and>
   fl_le (Fin (- 1)) (Fin (real 0 / 2)) \<and> fl_le (Fin (real 2 / 2)) (Fin 2) \<and>
   fl_le (Fin (- 1)) (Fin (real 1 / 2)) \<and> fl_le (Fin (real 1 / 2)) (Fin (3 / 2)) \<and>
   - 1 < real 0 / 2 \<and> real 2 / 2 < (2 :: real)"
proof -
  have h1: "{(0, 1), (2, 0)} = nonzero_cells (sample_list runner_two)"
    by (simp add: nonzero_cells_two)
  have h2: "{(0 :: nat, 1 :: nat), (2, 0)} \<noteq> {}" by simp
  have h3: "\<forall>i j. get_lambdas_for_index runner_two (i, j) = (real i / 2, real j / 2)"
    by (simp add: runner_two_grid)
  have m: "Min (fst ` {(0 :: nat, 1 :: nat), (2, 0)}) = 0"
    "Min (snd ` {(0 :: nat, 1 :: nat), (2, 0)}) = 0"
    "Max (fst ` {(0 :: nat, 1 :: nat), (2, 0)}) = 2"
    "Max (snd ` {(0 :: nat, 1 :: nat), (2, 0)}) = 1"
    by simp_all
  have b: "Fin (- 1) = fl_sub (Fin (real (Min (fst ` {(0 :: nat, 1 :: nat), (2, 0)})) / 2))
             (fl_mul (Fin 2) (Fin (step0 runner_two)))"
    "Fin (- 1) = fl_sub (Fin (real (Min (snd ` {(0 :: nat, 1 :: nat), (2, 0)})) / 2))
             (fl_mul (Fin 2) (Fin (step1 runner_two)))"
    "Fin 2 = fl_add (Fin (real (Max (fst ` {(0 :: nat, 1 :: nat), (2, 0)})) / 2))
             (fl_mul (Fin 2) (Fin (step0 runner_two)))"
    "Fin (3 / 2) = fl_add (Fin (real (Max (snd ` {(0 :: nat, 1 :: nat), (2, 0)})) / 2))
             (fl_mul (Fin 2) (Fin (step1 runner_two)))"
    unfolding m by (simp_all add: runner_two_grid fl_sub_def rnd64_ex)
  have pos: "0 < step0 runner_two" "0 < step1 runner_two"
    by (simp_all add: runner_two_grid)
  have mono: "mono (\<lambda>i. real i / 2)"
    by (simp add: mono_def divide_right_mono)
  have rep: "rnd64 (real 0 / 2) = Fin (real 0 / 2)" "rnd64 (real 1 / 2) = Fin (real 1 / 2)"
    "rnd64 (real 2 / 2) = Fin (real 2 / 2)"
    by (simp_all add: rnd64_ex)
  then have reps: "\<forall>(i, j)\<in>{(0 :: nat, 1 :: nat), (2, 0)}.
      rnd64 (real i / 2) = Fin (real i / 2) \<and> rnd64 (real j / 2) = Fin (real j / 2)"
    by simp
  note rect = get_wham_borders_rectangle [OF h1 h2 h3 b]
  from rect have res: "get_wham_borders runner_two = Inr (Fin (- 1), Fin (- 1), Fin 2, Fin (3 / 2))"
    by blast
  from rect pos mono reps
  have "\<forall>(i, j)\<in>{(0 :: nat, 1 :: nat), (2, 0)}.
      fl_le (Fin (- 1)) (Fin (real i / 2)) \<and> fl_le (Fin (real i / 2)) (Fin 2) \<and>
      fl_le (Fin (- 1)) (Fin (real j / 2)) \<and> fl_le (Fin (real j / 2)) (Fin (3 / 2))"
    by (simp add: less_imp_le)
  then have inside: "fl_le (Fin (- 1)) (Fin (real 0 / 2))" "fl_le (Fin (real 2 / 2)) (Fin 2)"
    "fl_le (Fin (- 1)) (Fin (real 1 / 2))" "fl_le (Fin (real 1 / 2)) (Fin (3 / 2))"
    by simp_all
  have strict: "- 1 < real 0 / 2" "real 2 / 2 < (2 :: real)" by simp_all
  from h1 h3 pos mono rep res inside strict show ?thesis by simp
qed

lemma rnd64_big:
  "rnd64 (2 ^ 60 + - 2) = Fin (2 ^ 60)" "rnd64 (2 ^ 60 + 2) = Fin (2 ^ 60)"
proof -
  show "rnd64 (2 ^ 60 + - 2) = Fin (2 ^ 60)"
    by (rule rnd64_eval [where k = 59 and m = "2 ^ 53"]) (simp_all add: round_even_def)
  show "rnd64 (2 ^ 60 + 2) = Fin (2 ^ 60)"
    by (rule rnd64_eval [where k = 60 and m = "2 ^ 52"]) (simp_all add: round_even_def)
qed

lemma rnd64_tenth:
  "rnd64 (2 * tenth) = Fin (2 * tenth)"
  "rnd64 (- tenth) = Fin (- tenth)"
  "rnd64 (3 * tenth) = Fin (5404319552844596 / 2 ^ 54)"
proof -
  show "rnd64 (2 * tenth) = Fin (2 * tenth)"
    unfolding tenth_def
    by (rule rnd64_exact [where m = "7205759403792794" and j = "- 55"]) simp_all
  show "rnd64 (- tenth) = Fin (- tenth)"
    unfolding tenth_def
    by (rule rnd64_exact [where m = "7205759403792794" and j = "- 56"]) simp_all
  show "rnd64 (3 * tenth) = Fin (5404319552844596 / 2 ^ 54)"
    unfolding tenth_def
    by (rule rnd64_eval [where k = "- 2" and m = "5404319552844596"])
      (simp_all add: round_even_def)
qed

text \<open>
  The claim as the spec words it fails where the sum or difference rounds: for one sampled
  cell at the coordinate \<open>0.1\<close> with step \<open>0.1\<close> the upper borders are the binary64 number
  next above \<open>0.1 + 2 * 0.1\<close>, and at the coordinate \<open>2 ^ 60\<close> with step 1 all four borders
  are the coordinate itself, which is then not strictly inside.
\<close>

theorem get_wham_borders_rounding:
  "nonzero_cells (sample_list runner_tenth) = {(1, 1)} \<and>
   get_lambdas_for_index runner_tenth (1, 1) = (tenth, tenth) \<and>
   step0 runner_tenth = tenth \<and> step1 runner_tenth = tenth \<and>
   get_wham_borders runner_tenth =
     Inr (Fin (- tenth), Fin (- tenth),
          Fin (5404319552844596 / 2 ^ 54), Fin (5404319552844596 / 2 ^ 54)) \<and>
   tenth + 2 * tenth \<noteq> 5404319552844596 / 2 ^ 54 \<and>
   nonzero_cells (sample_list runner_big) = {(1, 1)} \<and>
   get_lambdas_for_index runner_big (1, 1) = (2 ^ 60, 2 ^ 60) \<and>
   step0 runner_big = 1 \<and> step1 runner_big = 1 \<and>
   get_wham_borders runner_big = Inr (Fin (2 ^ 60), Fin (2 ^ 60), Fin (2 ^ 60), Fin (2 ^ 60)) \<and>
   \<not> fl_lt (Fin (2 ^ 60)) (Fin (2 ^ 60))"
proof -
  have nz: "nonzero_cells (sample_list runner_tenth) = {(1, 1)}"
    "nonzero_cells (sample_list runner_big) = {(1, 1)}"
    using nonzero_cells_ex by (simp_all add: runner_tenth_def runner_big_def)
  have t: "get_lambdas_for_index runner_tenth (i, j) = (tenth, tenth)"
    "step0 runner_tenth = tenth" "step1 runner_tenth = tenth" for i j
    by (simp_all add: runner_tenth_def step0_def step1_def)
  have g: "get_lambdas_for_index runner_big (i, j) = (2 ^ 60, 2 ^ 60)"
    "step0 runner_big = 1" "step1 runner_big = 1" for i j
    by (simp_all add: runner_big_def step0_def step1_def)
  have ne: "nonzero_cells (sample_list runner_tenth) \<noteq> {}"
    "nonzero_cells (sample_list runner_big) \<noteq> {}"
    by (simp_all add: nz)
  have bt: "get_wham_borders runner_tenth =
     Inr (Fin (- tenth), Fin (- tenth),
          Fin (5404319552844596 / 2 ^ 54), Fin (5404319552844596 / 2 ^ 54))"
    unfolding get_wham_borders_value [OF ne(1)] t
    by (simp add: fl_sub_def rnd64_tenth)
  have bg: "get_wham_borders runner_big =
      Inr (Fin (2 ^ 60), Fin (2 ^ 60), Fin (2 ^ 60), Fin (2 ^ 60))"
    unfolding get_wham_borders_value [OF ne(2)] g
    by (simp add: fl_sub_def rnd64_2 rnd64_big [simplified])
  have neq: "tenth + 2 * tenth \<noteq> 5404319552844596 / 2 ^ 54"
    by (simp add: tenth_def)
  from nz t(1) [of 1 1] t(2,3) g(1) [of 1 1] g(2,3) bt bg neq show ?thesis by simp
qed

text \<open>
  C5. With no nonzero cell in the Sample Grid, \<open>get_wham_borders\<close> returns no rectangle: the
  minimum over the empty index array raises ValueError.
\<close>

theorem get_wham_borders_empty_grid:
  assumes "nonzero_cells (sample_list st) = {}"
  shows "get_wham_borders st = Inl ValueError"
proof -
  have "set (fst (np_nonzero (sample_list st))) = {}"
    using assms by (simp add: np_nonzero_fst)
  then have "amin (fst (np_nonzero (sample_list st))) = Inl ValueError"
    by (simp add: amin_def)
  then show ?thesis
    by (simp add: get_wham_borders_def Let_def)
qed

theorem get_wham_borders_empty_grid_witness:
  "nonzero_cells (sample_list runner_zero) = {} \<and>
   get_wham_borders runner_zero = Inl ValueError"
proof -
  have h: "nonzero_cells (sample_list runner_zero) = {}"
    by (simp add: nonzero_cells_def runner_zero_def)
  from get_wham_borders_empty_grid [OF h] h show ?thesis by simp
qed

section \<open>Properties of the file and solver stages\<close>

subsection \<open>The concrete run, evaluated\<close>

lemma str_nat_3: "str_nat 3 = ''3''"
  by (simp add: str_nat.simps)

lemma out_ex: "get_wham_output_file runner_ex = ''tmp/WHAM/3_freeenergy.dat''"
  by (simp add: get_wham_output_file_def runner_ex_def path_join_def str_nat_3)

lemma fmt_ex:
  "fmt env_ex 0 = ''0''" "fmt env_ex 1 = ''1''"
  "fmt env_ex (- (1 / 2)) = ''-1''" "fmt env_ex (3 / 2) = ''1''"
  by (simp_all add: env_ex_def str_int_def str_nat.simps)

lemma runner_ex_fields:
  "verbose runner_ex = False" "get_sampled_lambdas runner_ex = [(0, 0), (1, 1)]"
  "tmp_folder runner_ex = ''tmp/WHAM''" "num_iterations runner_ex = 3"
  "simulation_folder runner_ex = ''tmp/simulations''" "WHAM_EXEC runner_ex = ''wham-2d''"
  by (simp_all add: runner_ex_def)

lemma config_ex_get:
  "config_get runner_ex ''fc_x'' = Inr ''100''" "config_get runner_ex ''fc_y'' = Inr ''100''"
  "config_get runner_ex ''Px'' = Inr ''0''" "config_get runner_ex ''Py'' = Inr ''0''"
  "config_get runner_ex ''num_bins_x'' = Inr ''50''"
  "config_get runner_ex ''num_bins_y'' = Inr ''50''"
  "config_get runner_ex ''tolerance'' = Inr ''0.01''"
  "config_get runner_ex ''temperature'' = Inr ''300''"
  "config_get runner_ex ''mask'' = Inr ''1''"
  by (simp_all add: config_get_def runner_ex_def config_ex_def)

lemma colvar_ex:
  "colvar_file runner_ex env_ex (0, 0) = ''tmp/simulations/umb_0_0/COLVAR''"
  "colvar_file runner_ex env_ex (1, 1) = ''tmp/simulations/umb_1_1/COLVAR''"
  by (simp_all add: colvar_file_def runner_ex_fields path_join_def fmt_ex)

subsection \<open>The manifest of the concrete run\<close>

text \<open>
  C6. With \<open>verbose\<close> off (its initial value) a sampled lambda pair whose data file is missing
  is not skipped: no file exists in \<open>world_ex\<close>, and the manifest written by
  \<open>create_metadata_file\<close> lists the data files of both sampled pairs.
\<close>

theorem create_metadata_file_lists_missing:
  "\<not> verbose runner_ex \<and>
   \<not> path_exists world_ex (colvar_file runner_ex env_ex (0, 0)) \<and>
   \<not> path_exists world_ex (colvar_file runner_ex env_ex (1, 1)) \<and>
   create_metadata_file runner_ex env_ex world_ex =
     (Inr ''tmp/WHAM/3_metadata.dat'',
      \<lparr>files = [''tmp/WHAM/3_metadata.dat'' \<mapsto>
          ''tmp/simulations/umb_0_0/COLVAR'' @ tab @ ''0'' @ tab @ ''0'' @ tab @ ''100'' @ tab
            @ ''100'' @ ''\<newline>'' @
          ''tmp/simulations/umb_1_1/COLVAR'' @ tab @ ''1'' @ tab @ ''1'' @ tab @ ''100'' @ tab
            @ ''100'' @ ''\<newline>''],
       stdout = [], calls = []\<rparr>)"
proof -
  have "\<not> verbose runner_ex" by (simp add: runner_ex_def)
  moreover have "\<not> path_exists world_ex p" for p
    by (simp add: path_exists_def world_ex_def)
  moreover have "create_metadata_file runner_ex env_ex world_ex =
     (Inr ''tmp/WHAM/3_metadata.dat'',
      \<lparr>files = [''tmp/WHAM/3_metadata.dat'' \<mapsto>
          ''tmp/simulations/umb_0_0/COLVAR'' @ tab @ ''0'' @ tab @ ''0'' @ tab @ ''100'' @ tab
            @ ''100'' @ ''\<newline>'' @
          ''tmp/simulations/umb_1_1/COLVAR'' @ tab @ ''1'' @ tab @ ''1'' @ tab @ ''100'' @ tab
            @ ''100'' @ ''\<newline>''],
       stdout = [], calls = []\<rparr>)"
    by (simp add: create_metadata_file_def Let_def runner_ex_fields colvar_ex fmt_ex
        path_exists_def config_ex_get file_write_def tab_def world_ex_def path_join_def
        str_nat_3)
  ultimately show ?thesis by blast
qed

text \<open>With \<open>verbose\<close> on, the same run skips both pairs and reports them.\<close>

lemma create_metadata_file_verbose_skips:
  "create_metadata_file (runner_ex\<lparr>verbose := True\<rparr>) env_ex world_ex =
     (Inr ''tmp/WHAM/3_metadata.dat'',
      \<lparr>files = [''tmp/WHAM/3_metadata.dat'' \<mapsto> []],
       stdout = [''Not found: tmp/simulations/umb_0_0/COLVAR'',
                 ''Not found: tmp/simulations/umb_1_1/COLVAR''],
       calls = []\<rparr>)"
proof -
  have "colvar_file (runner_ex\<lparr>verbose := True\<rparr>) env_ex l = colvar_file runner_ex env_ex l"
    for l
    by (simp add: colvar_file_def)
  then show ?thesis
    by (simp add: create_metadata_file_def Let_def runner_ex_fields colvar_ex path_exists_def
        print_def world_ex_def path_join_def str_nat_3)
qed

subsection \<open>\<open>load_wham_pmf\<close>\<close>

lemma kept_row:
  "is_fin (e r) \<Longrightarrow>
     \<lparr>x = replace_inf (x r), y = replace_inf (y r), e = replace_inf (e r),
      pro = replace_inf (pro r)\<rparr>
     = r\<lparr>x := replace_inf (x r), y := replace_inf (y r), pro := replace_inf (pro r)\<rparr>"
  by (cases "e r") (simp_all add: is_fin_def replace_inf_def)

lemma replace_inf_fin: "replace_inf v \<noteq> NaN \<longleftrightarrow> is_fin v"
  by (cases v) (simp_all add: is_fin_def replace_inf_def)

lemma dropna_replace:
  "dropna_e (df_replace df) =
     map (\<lambda>r. r\<lparr>x := replace_inf (x r), y := replace_inf (y r), pro := replace_inf (pro r)\<rparr>)
       (finite_energy_rows df)"
  by (induction df)
    (simp_all add: dropna_e_def df_replace_def finite_energy_rows_def replace_inf_fin kept_row)

lemma replace_inf_id: "v \<noteq> PInf \<Longrightarrow> v \<noteq> NInf \<Longrightarrow> replace_inf v = v"
  by (simp add: replace_inf_def)

text \<open>
  C7, as the code has it. \<open>load_wham_pmf\<close> drops every parsed row whose energy is positive
  or negative infinity (or NaN) and returns the rows of finite energy in their order, with
  \<open>e\<close> as it was; an infinite \<open>x\<close>, \<open>y\<close> or \<open>pro\<close> of such a row comes back as NaN. When
  no row has an infinite \<open>x\<close>, \<open>y\<close> or \<open>pro\<close>, the rows of finite energy come back
  unchanged.
\<close>

theorem load_wham_pmf_rows:
  assumes "files w wham_file = Some txt" and "read_csv en txt = Inr df"
  shows "load_wham_pmf en w wham_file =
           Inr (map (\<lambda>r. r\<lparr>x := replace_inf (x r), y := replace_inf (y r),
                            pro := replace_inf (pro r)\<rparr>) (finite_energy_rows df)) \<and>
         ((\<forall>r\<in>set df. x r \<notin> {PInf, NInf} \<and> y r \<notin> {PInf, NInf} \<and> pro r \<notin> {PInf, NInf})
            \<longrightarrow> load_wham_pmf en w wham_file = Inr (finite_energy_rows df))"
proof -
  have 1: "load_wham_pmf en w wham_file =
           Inr (map (\<lambda>r. r\<lparr>x := replace_inf (x r), y := replace_inf (y r),
                            pro := replace_inf (pro r)\<rparr>) (finite_energy_rows df))"
    using assms by (simp add: load_wham_pmf_def dropna_replace)
  have 2: "map (\<lambda>r. r\<lparr>x := replace_inf (x r), y := replace_inf (y r),
                            pro := replace_inf (pro r)\<rparr>) (finite_energy_rows df)
           = finite_energy_rows df"
    if "\<forall>r\<in>set df. x r \<notin> {PInf, NInf} \<and> y r \<notin> {PInf, NInf} \<and> pro r \<notin> {PInf, NInf}"
  proof -
    have "r\<lparr>x := replace_inf (x r), y := replace_inf (y r), pro := replace_inf (pro r)\<rparr> = r"
      if "r \<in> set (finite_energy_rows df)" for r
    proof -
      from that have "r \<in> set df" by (simp add: finite_energy_rows_def)
      with \<open>\<forall>r\<in>set df. _\<close> show ?thesis by (simp add: replace_inf_id)
    qed
    then show ?thesis by (simp add: map_idI)
  qed
  from 1 2 show ?thesis by simp
qed

lemma load_ex:
  "load_wham_pmf env_ex world_cached ''tmp/WHAM/3_freeenergy.dat'' =
     Inr [\<lparr>x = Fin (1 / 10), y = Fin (3 / 10), e = Fin (- (3 / 2)), pro = Fin (2 / 10)\<rparr>,
          \<lparr>x = Fin 1, y = Fin 1, e = Fin 1, pro = NaN\<rparr>]"
  by (simp add: load_wham_pmf_def world_cached_def env_ex_def raw_ex_def dropna_e_def
      df_replace_def replace_inf_def)

theorem load_wham_pmf_rows_witness:
  "files world_cached ''tmp/WHAM/3_freeenergy.dat'' = Some ''solved'' \<and>
   read_csv env_ex ''solved'' = Inr raw_ex \<and>
   load_wham_pmf env_ex world_cached ''tmp/WHAM/3_freeenergy.dat'' =
     Inr [\<lparr>x = Fin (1 / 10), y = Fin (3 / 10), e = Fin (- (3 / 2)), pro = Fin (2 / 10)\<rparr>,
          \<lparr>x = Fin 1, y = Fin 1, e = Fin 1, pro = NaN\<rparr>] \<and>
   load_wham_pmf (env_ex\<lparr>read_csv := (\<lambda>t. Inr (butlast raw_ex))\<rparr>) world_cached
       ''tmp/WHAM/3_freeenergy.dat'' =
     Inr [\<lparr>x = Fin (1 / 10), y = Fin (3 / 10), e = Fin (- (3 / 2)), pro = Fin (2 / 10)\<rparr>]"
proof -
  have h1: "files world_cached ''tmp/WHAM/3_freeenergy.dat'' = Some ''solved''"
    by (simp add: world_cached_def)
  have h2: "read_csv env_ex ''solved'' = Inr raw_ex"
    by (simp add: env_ex_def)
  have fin: "finite_energy_rows raw_ex =
     [\<lparr>x = Fin (1 / 10), y = Fin (3 / 10), e = Fin (- (3 / 2)), pro = Fin (2 / 10)\<rparr>,
      \<lparr>x = Fin 1, y = Fin 1, e = Fin 1, pro = PInf\<rparr>]"
    by (simp add: finite_energy_rows_def raw_ex_def is_fin_def)
  from load_wham_pmf_rows [OF h1 h2]
  have "load_wham_pmf env_ex world_cached ''tmp/WHAM/3_freeenergy.dat'' =
     Inr [\<lparr>x = Fin (1 / 10), y = Fin (3 / 10), e = Fin (- (3 / 2)), pro = Fin (2 / 10)\<rparr>,
          \<lparr>x = Fin 1, y = Fin 1, e = Fin 1, pro = NaN\<rparr>]"
    unfolding fin by (simp add: replace_inf_def)
  moreover have "load_wham_pmf (env_ex\<lparr>read_csv := (\<lambda>t. Inr (butlast raw_ex))\<rparr>) world_cached
       ''tmp/WHAM/3_freeenergy.dat'' =
     Inr [\<lparr>x = Fin (1 / 10), y = Fin (3 / 10), e = Fin (- (3 / 2)), pro = Fin (2 / 10)\<rparr>]"
  proof -
    have h3: "read_csv (env_ex\<lparr>read_csv := (\<lambda>t. Inr (butlast raw_ex))\<rparr>) ''solved''
        = Inr (butlast raw_ex)"
      by simp
    have h4: "\<forall>r\<in>set (butlast raw_ex).
        x r \<notin> {PInf, NInf} \<and> y r \<notin> {PInf, NInf} \<and> pro r \<notin> {PInf, NInf}"
      by (simp add: raw_ex_def)
    have rows: "finite_energy_rows (butlast raw_ex) =
       [\<lparr>x = Fin (1 / 10), y = Fin (3 / 10), e = Fin (- (3 / 2)), pro = Fin (2 / 10)\<rparr>]"
      by (simp add: finite_energy_rows_def raw_ex_def is_fin_def)
    from load_wham_pmf_rows [OF h1 h3] h4
    have "load_wham_pmf (env_ex\<lparr>read_csv := (\<lambda>t. Inr (butlast raw_ex))\<rparr>) world_cached
       ''tmp/WHAM/3_freeenergy.dat'' = Inr (finite_energy_rows (butlast raw_ex))"
      by blast
    then show ?thesis by (simp only: rows)
  qed
  ultimately show ?thesis using h1 h2 by simp
qed

text \<open>
  The claim as the spec words it fails on a row of finite energy whose probability column is
  infinite: the row is kept, and its \<open>pro\<close> comes back as NaN.
\<close>

theorem load_wham_pmf_changes_values:
  "load_wham_pmf env_ex world_cached ''tmp/WHAM/3_freeenergy.dat''
     \<noteq> Inr (finite_energy_rows raw_ex)"
  by (simp add: load_ex) (simp add: finite_energy_rows_def raw_ex_def is_fin_def)


subsection \<open>\<open>run_wham2d\<close> and \<open>calculate_new_pmf\<close>\<close>

lemma write_entries_frame:
  "write_entries st en out ls w = (r, w') \<Longrightarrow>
     calls w' = calls w \<and> (\<forall>p. p \<noteq> out \<longrightarrow> files w' p = files w p)"
proof (induction ls arbitrary: w)
  case Nil
  then show ?case by simp
next
  case (Cons l ls)
  show ?case
  proof (cases "\<not> path_exists w (colvar_file st en l) \<and> verbose st")
    case True
    with Cons.prems have
      "write_entries st en out ls (print (''Not found: '' @ colvar_file st en l) w) = (r, w')"
      by (simp add: Let_def)
    from Cons.IH [OF this] show ?thesis by (simp add: print_def)
  next
    case False
    show ?thesis
    proof (cases "config_get st ''fc_x''")
      case (Inl err)
      with False Cons.prems show ?thesis by (auto simp: Let_def)
    next
      case fx: (Inr fc_x)
      show ?thesis
      proof (cases "config_get st ''fc_y''")
        case (Inl err)
        with False fx Cons.prems show ?thesis by (auto simp: Let_def)
      next
        case fy: (Inr fc_y)
        with False fx Cons.prems obtain s where
          "write_entries st en out ls (file_write out s w) = (r, w')"
          by (auto simp: Let_def)
        from Cons.IH [OF this] show ?thesis by (simp add: file_write_def)
      qed
    qed
  qed
qed

lemma create_metadata_file_frame:
  assumes "create_metadata_file st en w = (r, w')"
  shows "calls w' = calls w"
    and "p \<noteq> path_join (tmp_folder st) (str_nat (num_iterations st) @ ''_metadata.dat'')
           \<Longrightarrow> files w' p = files w p"
proof -
  define path where
    "path = path_join (tmp_folder st) (str_nat (num_iterations st) @ ''_metadata.dat'')"
  obtain r0 where "write_entries st en path (get_sampled_lambdas st)
      (w\<lparr>files := (files w)(path \<mapsto> [])\<rparr>) = (r0, w')"
    using assms unfolding create_metadata_file_def Let_def path_def
    by (auto split: prod.splits sum.splits)
  from write_entries_frame [OF this]
  have *: "calls w' = calls w" "\<forall>p. p \<noteq> path \<longrightarrow> files w' p = files w p"
    by simp_all
  show "calls w' = calls w" by (rule *(1))
  show "files w' p = files w p"
    if "p \<noteq> path_join (tmp_folder st) (str_nat (num_iterations st) @ ''_metadata.dat'')"
    using that *(2) by (simp add: path_def)
qed

lemma str_nat_nonempty: "str_nat n \<noteq> []"
  by (subst str_nat.simps) simp

lemma metadata_output_distinct:
  "get_wham_output_file st
     \<noteq> path_join (tmp_folder st) (str_nat (num_iterations st) @ ''_metadata.dat'')"
proof -
  obtain c cs where s: "str_nat (num_iterations st) = c # cs"
    using str_nat_nonempty [of "num_iterations st"] by (cases "str_nat (num_iterations st)") auto
  show ?thesis
    unfolding get_wham_output_file_def path_join_def s by simp
qed

lemma create_metadata_file_keeps_output:
  assumes "create_metadata_file st en w = (r, w')"
  shows "path_exists w' (get_wham_output_file st) = path_exists w (get_wham_output_file st)"
  using create_metadata_file_frame(2) [OF assms metadata_output_distinct]
  by (simp add: path_exists_def)

lemma run_wham2d_cached:
  "path_exists w output_path \<Longrightarrow>
     run_wham2d st en metafile_path output_path w =
       (Inr (), print (''skipping wham, '' @ output_path @ '' already exists.'') w)"
  by (simp add: run_wham2d_def)

lemma run_wham2d_fresh:
  assumes "\<not> path_exists w output_path" and "get_wham_borders st = Inr b"
    and "wham_cmd st en b metafile_path output_path = Inr cmd"
    and "subprocess_call en cmd (files w) = (code, fs)"
  shows "run_wham2d st en metafile_path output_path w =
     (if code \<noteq> 0
      then (Inl (SystemExit 1),
            print (''wham exited with error code '' @ str_int code)
              ((if verbose st then print cmd w else w)\<lparr>files := fs, calls := calls w @ [cmd]\<rparr>))
      else (Inr (), (if verbose st then print cmd w else w)\<lparr>files := fs, calls := calls w @ [cmd]\<rparr>))"
  using assms by (simp add: run_wham2d_def Let_def print_def)

lemma run_wham2d_ok_call:
  assumes "\<not> path_exists w output_path"
    and "run_wham2d st en metafile_path output_path w = (Inr (), w1)"
  shows "\<exists>cmd. calls w1 = calls w @ [cmd]"
  using assms
  by (auto simp: run_wham2d_def Let_def print_def split: sum.splits prod.splits if_splits)


text \<open>
  C8. When the output file exists, \<open>run_wham2d\<close> returns normally without calling the
  solver or touching a file. Hence, when a first invocation found no output file,
  returned normally and left the output file behind, it made exactly one solver call, and a
  second invocation with the same output path returns normally and adds no call.
\<close>

theorem run_wham2d_idempotent:
  "(path_exists w output_path \<longrightarrow>
      (\<exists>w'. run_wham2d st en metafile_path output_path w = (Inr (), w') \<and>
            calls w' = calls w \<and> files w' = files w)) \<and>
   (\<not> path_exists w output_path \<and>
    run_wham2d st en metafile_path output_path w = (Inr (), w1) \<and>
    path_exists w1 output_path \<longrightarrow>
      (\<exists>cmd w2. calls w1 = calls w @ [cmd] \<and>
         run_wham2d st en metafile_path output_path w1 = (Inr (), w2) \<and>
         calls w2 = calls w @ [cmd] \<and> files w2 = files w1))"
proof (intro conjI impI)
  assume "path_exists w output_path"
  then show "\<exists>w'. run_wham2d st en metafile_path output_path w = (Inr (), w') \<and>
            calls w' = calls w \<and> files w' = files w"
    by (simp add: run_wham2d_cached print_def)
next
  assume a: "\<not> path_exists w output_path \<and>
    run_wham2d st en metafile_path output_path w = (Inr (), w1) \<and>
    path_exists w1 output_path"
  then obtain cmd where "calls w1 = calls w @ [cmd]"
    using run_wham2d_ok_call by blast
  moreover from a have "run_wham2d st en metafile_path output_path w1 =
       (Inr (), print (''skipping wham, '' @ output_path @ '' already exists.'') w1)"
    by (simp add: run_wham2d_cached)
  ultimately show "\<exists>cmd w2. calls w1 = calls w @ [cmd] \<and>
         run_wham2d st en metafile_path output_path w1 = (Inr (), w2) \<and>
         calls w2 = calls w @ [cmd] \<and> files w2 = files w1"
    by (simp add: print_def)
qed

lemma borders_ex: "get_wham_borders runner_ex = Inr (Fin (- (1 / 2)), Fin (- (1 / 2)), Fin (3 / 2), Fin (3 / 2))"
proof -
  have "nonzero_cells (sample_list runner_ex) \<noteq> {}"
    by (simp add: nonzero_cells_ex)
  from get_wham_borders_value [OF this] show ?thesis
    by (simp add: nonzero_cells_ex)
      (simp add: runner_ex_def lambdas_ex_def step0_def step1_def fl_sub_def rnd64_ex)
qed

lemma cmd_ex:
  "wham_cmd runner_ex env_ex (Fin (- (1 / 2)), Fin (- (1 / 2)), Fin (3 / 2), Fin (3 / 2))
     ''tmp/WHAM/3_metadata.dat'' ''tmp/WHAM/3_freeenergy.dat'' =
   Inr (''wham-2d Px=0 -1 1 50 Py=0 -1 1 50 0.01 300 0 ''
        @ ''tmp/WHAM/3_metadata.dat tmp/WHAM/3_freeenergy.dat 1'')"
  by (simp add: wham_cmd_def fmt_fl_def config_ex_get fmt_ex runner_ex_fields)

lemma first_run_ex:
  "run_wham2d runner_ex env_ex ''tmp/WHAM/3_metadata.dat'' ''tmp/WHAM/3_freeenergy.dat''
     world_ex =
   (Inr (),
    \<lparr>files = [''tmp/WHAM/3_freeenergy.dat'' \<mapsto> ''solved''], stdout = [],
     calls = [''wham-2d Px=0 -1 1 50 Py=0 -1 1 50 0.01 300 0 ''
              @ ''tmp/WHAM/3_metadata.dat tmp/WHAM/3_freeenergy.dat 1'']\<rparr>)"
proof -
  have 1: "\<not> path_exists world_ex ''tmp/WHAM/3_freeenergy.dat''"
    by (simp add: path_exists_def world_ex_def)
  have 2: "subprocess_call env_ex
      (''wham-2d Px=0 -1 1 50 Py=0 -1 1 50 0.01 300 0 ''
        @ ''tmp/WHAM/3_metadata.dat tmp/WHAM/3_freeenergy.dat 1'') (files world_ex)
      = (0, [''tmp/WHAM/3_freeenergy.dat'' \<mapsto> ''solved''])"
    by (simp add: env_ex_def world_ex_def)
  show ?thesis
    unfolding run_wham2d_fresh [OF 1 borders_ex cmd_ex 2]
    by (simp add: runner_ex_fields world_ex_def)
qed

theorem run_wham2d_idempotent_witness:
  "\<not> path_exists world_ex ''tmp/WHAM/3_freeenergy.dat'' \<and>
   (\<exists>w1 w2 cmd.
      run_wham2d runner_ex env_ex ''tmp/WHAM/3_metadata.dat'' ''tmp/WHAM/3_freeenergy.dat''
        world_ex = (Inr (), w1) \<and>
      path_exists w1 ''tmp/WHAM/3_freeenergy.dat'' \<and>
      run_wham2d runner_ex env_ex ''tmp/WHAM/3_metadata.dat'' ''tmp/WHAM/3_freeenergy.dat''
        w1 = (Inr (), w2) \<and>
      calls w1 = [cmd] \<and> calls w2 = [cmd] \<and> files w2 = files w1)"
proof -
  define w1 where "w1 =
    \<lparr>files = [''tmp/WHAM/3_freeenergy.dat'' \<mapsto> ''solved''], stdout = [],
     calls = [''wham-2d Px=0 -1 1 50 Py=0 -1 1 50 0.01 300 0 ''
              @ ''tmp/WHAM/3_metadata.dat tmp/WHAM/3_freeenergy.dat 1'']\<rparr>"
  have h1: "\<not> path_exists world_ex ''tmp/WHAM/3_freeenergy.dat''"
    by (simp add: path_exists_def world_ex_def)
  have h2: "run_wham2d runner_ex env_ex ''tmp/WHAM/3_metadata.dat''
      ''tmp/WHAM/3_freeenergy.dat'' world_ex = (Inr (), w1)"
    unfolding w1_def by (rule first_run_ex)
  have h3: "path_exists w1 ''tmp/WHAM/3_freeenergy.dat''"
    by (simp add: path_exists_def w1_def)
  from run_wham2d_idempotent [of world_ex "''tmp/WHAM/3_freeenergy.dat''" runner_ex env_ex
      "''tmp/WHAM/3_metadata.dat''" w1] h1 h2 h3
  obtain cmd w2 where "calls w1 = calls world_ex @ [cmd]"
    "run_wham2d runner_ex env_ex ''tmp/WHAM/3_metadata.dat'' ''tmp/WHAM/3_freeenergy.dat''
        w1 = (Inr (), w2)"
    "calls w2 = calls world_ex @ [cmd]" "files w2 = files w1"
    by blast
  moreover have "calls world_ex = []" by (simp add: world_ex_def)
  ultimately show ?thesis using h1 h2 h3 by auto
qed


lemma write_entries_ok:
  assumes "config_get st ''fc_x'' = Inr fc_x" and "config_get st ''fc_y'' = Inr fc_y"
  shows "\<exists>w'. write_entries st en out ls w = (Inr (), w')"
  using assms by (induction ls arbitrary: w) (simp_all add: Let_def)

lemma create_metadata_file_ok:
  assumes "config_get st ''fc_x'' = Inr fc_x" and "config_get st ''fc_y'' = Inr fc_y"
  shows "\<exists>w'. create_metadata_file st en w =
           (Inr (path_join (tmp_folder st) (str_nat (num_iterations st) @ ''_metadata.dat'')),
            w')"
proof -
  from write_entries_ok [OF assms] obtain w' where
    "write_entries st en
       (path_join (tmp_folder st) (str_nat (num_iterations st) @ ''_metadata.dat''))
       (get_sampled_lambdas st)
       (w\<lparr>files := (files w)(path_join (tmp_folder st)
            (str_nat (num_iterations st) @ ''_metadata.dat'') \<mapsto> [])\<rparr>) = (Inr (), w')"
    by blast
  then show ?thesis by (simp add: create_metadata_file_def Let_def)
qed

text \<open>
  C9. When no output file exists and the solver exits with a status other than 0,
  \<open>run_wham2d\<close> prints that status and raises SystemExit after this one solver call, and
  \<open>calculate_new_pmf\<close> ends with that exception: the runner is as it was (nothing was
  loaded or projected) and the world is as \<open>run_wham2d\<close> left it.
\<close>

theorem run_wham2d_failure_fatal:
  assumes absent: "\<not> path_exists w (get_wham_output_file st)"
    and meta: "create_metadata_file st en w = (Inr metafile_path, w1)"
    and borders: "get_wham_borders st = Inr b"
    and cmd: "wham_cmd st en b metafile_path (get_wham_output_file st) = Inr cmd"
    and call: "subprocess_call en cmd (files w1) = (err_code, fs)"
    and fail: "err_code \<noteq> 0"
  shows "\<exists>w2. run_wham2d st en metafile_path (get_wham_output_file st) w1
                  = (Inl (SystemExit 1), w2) \<and>
              calls w2 = calls w @ [cmd] \<and> files w2 = fs \<and>
              last (stdout w2) = ''wham exited with error code '' @ str_int err_code \<and>
              calculate_new_pmf st en w = (Inl (SystemExit 1), st, w2)"
proof -
  have absent1: "\<not> path_exists w1 (get_wham_output_file st)"
    using absent create_metadata_file_keeps_output [OF meta] by simp
  have calls1: "calls w1 = calls w"
    by (rule create_metadata_file_frame(1) [OF meta])
  define w2 where "w2 = print (''wham exited with error code '' @ str_int err_code)
      ((if verbose st then print cmd w1 else w1)\<lparr>files := fs, calls := calls w1 @ [cmd]\<rparr>)"
  have run: "run_wham2d st en metafile_path (get_wham_output_file st) w1
      = (Inl (SystemExit 1), w2)"
    unfolding run_wham2d_fresh [OF absent1 borders cmd call] w2_def using fail by simp
  have "calls w2 = calls w @ [cmd]" "files w2 = fs"
    "last (stdout w2) = ''wham exited with error code '' @ str_int err_code"
    by (simp_all add: w2_def print_def calls1)
  moreover have "calculate_new_pmf st en w = (Inl (SystemExit 1), st, w2)"
    by (simp add: calculate_new_pmf_def meta run Let_def)
  ultimately show ?thesis using run by blast
qed

lemma fmt_fail: "fmt env_fail = fmt env_ex"
  by (simp add: env_fail_def)

lemma cmd_fail:
  "wham_cmd runner_ex env_fail (Fin (- (1 / 2)), Fin (- (1 / 2)), Fin (3 / 2), Fin (3 / 2))
     ''tmp/WHAM/3_metadata.dat'' ''tmp/WHAM/3_freeenergy.dat'' =
   Inr (''wham-2d Px=0 -1 1 50 Py=0 -1 1 50 0.01 300 0 ''
        @ ''tmp/WHAM/3_metadata.dat tmp/WHAM/3_freeenergy.dat 1'')"
  by (simp add: wham_cmd_def fmt_fl_def config_ex_get fmt_fail fmt_ex runner_ex_fields)

lemma meta_path_ex:
  "path_join (tmp_folder runner_ex) (str_nat (num_iterations runner_ex) @ ''_metadata.dat'')
     = ''tmp/WHAM/3_metadata.dat''"
  by (simp add: runner_ex_fields path_join_def str_nat_3)

theorem run_wham2d_failure_fatal_witness:
  "\<not> path_exists world_ex (get_wham_output_file runner_ex) \<and>
   get_wham_borders runner_ex = Inr (Fin (- (1 / 2)), Fin (- (1 / 2)), Fin (3 / 2), Fin (3 / 2)) \<and>
   (\<exists>w1 w2. create_metadata_file runner_ex env_fail world_ex
               = (Inr ''tmp/WHAM/3_metadata.dat'', w1) \<and>
      subprocess_call env_fail
        (''wham-2d Px=0 -1 1 50 Py=0 -1 1 50 0.01 300 0 ''
          @ ''tmp/WHAM/3_metadata.dat tmp/WHAM/3_freeenergy.dat 1'') (files w1)
        = (2, files w1) \<and>
      calculate_new_pmf runner_ex env_fail world_ex = (Inl (SystemExit 1), runner_ex, w2) \<and>
      calls w2 = [''wham-2d Px=0 -1 1 50 Py=0 -1 1 50 0.01 300 0 ''
          @ ''tmp/WHAM/3_metadata.dat tmp/WHAM/3_freeenergy.dat 1''] \<and>
      last (stdout w2) = ''wham exited with error code 2'')"
proof -
  have h1: "\<not> path_exists world_ex (get_wham_output_file runner_ex)"
    by (simp add: path_exists_def world_ex_def)
  obtain w1 where h2: "create_metadata_file runner_ex env_fail world_ex
      = (Inr ''tmp/WHAM/3_metadata.dat'', w1)"
    using create_metadata_file_ok [OF config_ex_get(1,2), of env_fail world_ex]
    unfolding meta_path_ex by blast
  have h4: "wham_cmd runner_ex env_fail (Fin (- (1 / 2)), Fin (- (1 / 2)), Fin (3 / 2), Fin (3 / 2))
     ''tmp/WHAM/3_metadata.dat'' (get_wham_output_file runner_ex) =
   Inr (''wham-2d Px=0 -1 1 50 Py=0 -1 1 50 0.01 300 0 ''
        @ ''tmp/WHAM/3_metadata.dat tmp/WHAM/3_freeenergy.dat 1'')"
    unfolding out_ex by (rule cmd_fail)
  have h5: "subprocess_call env_fail
        (''wham-2d Px=0 -1 1 50 Py=0 -1 1 50 0.01 300 0 ''
          @ ''tmp/WHAM/3_metadata.dat tmp/WHAM/3_freeenergy.dat 1'') (files w1)
        = (2, files w1)"
    by (simp add: env_fail_def)
  have h6: "(2 :: int) \<noteq> 0" by simp
  from run_wham2d_failure_fatal [OF h1 h2 borders_ex h4 h5 h6] obtain w2 where
    "calls w2 = calls world_ex @ [''wham-2d Px=0 -1 1 50 Py=0 -1 1 50 0.01 300 0 ''
          @ ''tmp/WHAM/3_metadata.dat tmp/WHAM/3_freeenergy.dat 1'']"
    "last (stdout w2) = ''wham exited with error code '' @ str_int 2"
    "calculate_new_pmf runner_ex env_fail world_ex = (Inl (SystemExit 1), runner_ex, w2)"
    by blast
  moreover have "calls world_ex = []" by (simp add: world_ex_def)
  moreover have "str_int 2 = ''2''" by (simp add: str_int_def str_nat.simps)
  ultimately have "calculate_new_pmf runner_ex env_fail world_ex
        = (Inl (SystemExit 1), runner_ex, w2) \<and>
      calls w2 = [''wham-2d Px=0 -1 1 50 Py=0 -1 1 50 0.01 300 0 ''
          @ ''tmp/WHAM/3_metadata.dat tmp/WHAM/3_freeenergy.dat 1''] \<and>
      last (stdout w2) = ''wham exited with error code 2''"
    by simp
  with h1 h2 h5 borders_ex show ?thesis by blast
qed


lemma load_files_cong:
  "files w' p = files w p \<Longrightarrow> load_wham_pmf en w' p = load_wham_pmf en w p"
  by (simp add: load_wham_pmf_def)

text \<open>
  C10. When the output file exists and the Sample Grid has no nonzero cell (so that
  \<open>get_wham_borders\<close> would raise), \<open>calculate_new_pmf\<close> still takes the cached path:
  \<open>run_wham2d\<close> returns normally without a solver call, and the pipeline ends with the
  projected grid, or with the error of parsing the output file. With the output file absent,
  \<open>run_wham2d\<close> on such a grid ends with the ValueError of the boundary computation.
\<close>

theorem calculate_new_pmf_cached:
  assumes cached: "path_exists w (get_wham_output_file st)"
    and empty: "nonzero_cells (sample_list st) = {}"
    and meta: "create_metadata_file st en w = (Inr metafile_path, w1)"
  shows "get_wham_borders st = Inl ValueError \<and>
     (\<exists>w2. run_wham2d st en metafile_path (get_wham_output_file st) w1 = (Inr (), w2) \<and>
        calls w2 = calls w \<and>
        files w2 (get_wham_output_file st) = files w (get_wham_output_file st) \<and>
        (case load_wham_pmf en w2 (get_wham_output_file st) of
           Inl err \<Rightarrow>
             calculate_new_pmf st en w = (Inl err, st, w2) \<and>
             (\<exists>txt. files w (get_wham_output_file st) = Some txt \<and> read_csv en txt = Inl err)
         | Inr wham_pmf \<Rightarrow>
             (\<exists>a. update_pmf st wham_pmf = (Inr (), a) \<and>
                  calculate_new_pmf st en w = (Inr a, st\<lparr>pmf := a\<rparr>, w2)))) \<and>
     (\<forall>m' w'. \<not> path_exists w' (get_wham_output_file st) \<longrightarrow>
        run_wham2d st en m' (get_wham_output_file st) w' = (Inl ValueError, w'))"
proof -
  let ?out = "get_wham_output_file st"
  have b: "get_wham_borders st = Inl ValueError"
    using empty by (rule get_wham_borders_empty)
  have cached1: "path_exists w1 ?out"
    using cached create_metadata_file_keeps_output [OF meta] by simp
  define w2 where "w2 = print (''skipping wham, '' @ ?out @ '' already exists.'') w1"
  have run: "run_wham2d st en metafile_path ?out w1 = (Inr (), w2)"
    unfolding w2_def using cached1 by (rule run_wham2d_cached)
  have calls2: "calls w2 = calls w"
    using create_metadata_file_frame(1) [OF meta] by (simp add: w2_def print_def)
  have files2: "files w2 ?out = files w ?out"
    using create_metadata_file_frame(2) [OF meta metadata_output_distinct]
    by (simp add: w2_def print_def)
  obtain content where some: "files w ?out = Some content"
    using cached by (auto simp: path_exists_def)
  have rest: "case load_wham_pmf en w2 ?out of
           Inl err \<Rightarrow>
             calculate_new_pmf st en w = (Inl err, st, w2) \<and>
             (\<exists>txt. files w ?out = Some txt \<and> read_csv en txt = Inl err)
         | Inr wham_pmf \<Rightarrow>
             (\<exists>a. update_pmf st wham_pmf = (Inr (), a) \<and>
                  calculate_new_pmf st en w = (Inr a, st\<lparr>pmf := a\<rparr>, w2))"
  proof (cases "load_wham_pmf en w2 ?out")
    case (Inl err)
    then have "read_csv en content = Inl err"
      using files2 some by (simp add: load_wham_pmf_def split: sum.splits)
    moreover have "calculate_new_pmf st en w = (Inl err, st, w2)"
      by (simp add: calculate_new_pmf_def meta run Inl Let_def)
    ultimately show ?thesis using Inl some by simp
  next
    case (Inr wham_pmf)
    obtain a where a: "update_pmf st wham_pmf = (Inr (), a)"
      using update_pmf_cells [of st wham_pmf] by blast
    have "calculate_new_pmf st en w = (Inr a, st\<lparr>pmf := a\<rparr>, w2)"
      by (simp add: calculate_new_pmf_def meta run Inr a Let_def)
    with a Inr show ?thesis by simp
  qed
  have absent: "run_wham2d st en m' ?out w' = (Inl ValueError, w')"
    if "\<not> path_exists w' ?out" for m' w'
    using that by (simp add: run_wham2d_def b)
  from b run calls2 files2 rest absent show ?thesis by blast
qed

lemma out_zero: "get_wham_output_file runner_zero = ''tmp/WHAM/3_freeenergy.dat''"
  by (simp add: get_wham_output_file_def runner_zero_def runner_ex_def path_join_def str_nat_3)

lemma meta_zero:
  "\<exists>w1. create_metadata_file runner_zero env_ex world_cached
          = (Inr ''tmp/WHAM/3_metadata.dat'', w1)"
proof -
  have "config_get runner_zero ''fc_x'' = Inr ''100''"
    "config_get runner_zero ''fc_y'' = Inr ''100''"
    by (simp_all add: config_get_def runner_zero_def runner_ex_def config_ex_def)
  from create_metadata_file_ok [OF this, of env_ex world_cached] show ?thesis
    by (simp add: runner_zero_def runner_ex_def path_join_def str_nat_3)
qed

theorem calculate_new_pmf_cached_witness:
  "path_exists world_cached (get_wham_output_file runner_zero) \<and>
   nonzero_cells (sample_list runner_zero) = {} \<and>
   get_wham_borders runner_zero = Inl ValueError \<and>
   (\<exists>a w1 w2. create_metadata_file runner_zero env_ex world_cached
                 = (Inr ''tmp/WHAM/3_metadata.dat'', w1) \<and>
      calculate_new_pmf runner_zero env_ex world_cached = (Inr a, runner_zero\<lparr>pmf := a\<rparr>, w2) \<and>
      calls w2 = [])"
proof -
  have h1: "path_exists world_cached (get_wham_output_file runner_zero)"
    by (simp add: out_zero path_exists_def world_cached_def)
  have h2: "nonzero_cells (sample_list runner_zero) = {}"
    by (simp add: nonzero_cells_def runner_zero_def)
  obtain w1 where h3: "create_metadata_file runner_zero env_ex world_cached
      = (Inr ''tmp/WHAM/3_metadata.dat'', w1)"
    using meta_zero by blast
  from calculate_new_pmf_cached [OF h1 h2 h3] obtain w2 where
    b: "get_wham_borders runner_zero = Inl ValueError"
    and c: "calls w2 = calls world_cached"
    and f: "files w2 (get_wham_output_file runner_zero)
             = files world_cached (get_wham_output_file runner_zero)"
    and r: "case load_wham_pmf env_ex w2 (get_wham_output_file runner_zero) of
           Inl err \<Rightarrow>
             calculate_new_pmf runner_zero env_ex world_cached = (Inl err, runner_zero, w2) \<and>
             (\<exists>txt. files world_cached (get_wham_output_file runner_zero) = Some txt \<and>
                read_csv env_ex txt = Inl err)
         | Inr wham_pmf \<Rightarrow>
             (\<exists>a. update_pmf runner_zero wham_pmf = (Inr (), a) \<and>
                  calculate_new_pmf runner_zero env_ex world_cached
                    = (Inr a, runner_zero\<lparr>pmf := a\<rparr>, w2))"
    by blast
  have "load_wham_pmf env_ex w2 (get_wham_output_file runner_zero)
      = load_wham_pmf env_ex world_cached ''tmp/WHAM/3_freeenergy.dat''"
    using load_files_cong [OF f] by (simp add: out_zero)
  with r obtain a where
    "calculate_new_pmf runner_zero env_ex world_cached = (Inr a, runner_zero\<lparr>pmf := a\<rparr>, w2)"
    by (auto simp: load_ex)
  moreover have "calls w2 = []" using c by (simp add: world_cached_def)
  ultimately show ?thesis using h1 h2 h3 b by blast
qed

end
